theory Spec2Isabelle
  imports Main "HOL-Library.Sublist" "HOL-Library.AList" "HOL-Library.Char_ord"
    "HOL-Library.List_Lexorder"
begin

section \<open>JavaScript values, strings and objects\<close>

text \<open>
  The scripts handle records whose values are strings, \<open>null\<close>, \<open>undefined\<close>, booleans,
  integers, arrays (the portal builds one for a group of checkboxes, and the store returns
  one for an array or JSON column) and objects. A string is the list of its UTF-16 code
  units, each below \<open>0x100\<close>: the model covers Latin-1 text, and on it the string
  operations below are the JavaScript ones. An object is an association list with distinct
  keys in the object's own key order, which for the property names of these scripts is
  insertion order; \<open>Object.keys\<close>, \<open>JSON.stringify\<close> and the spread operator follow it.
  Property names are names of data: none is an array index or a name that every object
  inherits (such as \<open>toString\<close>), so that a name an object does not hold reads as
  \<open>undefined\<close> and the conversion of an object to a string is the inherited one.
\<close>

datatype jsval = JUndefined | JNull | JBool bool | JNum int | JStr string
  | JArr "jsval list" | JObj "(string \<times> jsval) list"

datatype jserror = TypeError | Error string

type_synonym jsobj = "(string \<times> jsval) list"

fun truthy :: "jsval \<Rightarrow> bool" where
  "truthy JUndefined = False"
| "truthy JNull = False"
| "truthy (JBool b) = b"
| "truthy (JNum n) = (n \<noteq> 0)"
| "truthy (JStr s) = (s \<noteq> [])"
| "truthy (JArr xs) = True"
| "truthy (JObj ps) = True"

definition obj_get :: "jsobj \<Rightarrow> string \<Rightarrow> jsval" where
  "obj_get obj k = (case map_of obj k of None \<Rightarrow> JUndefined | Some v \<Rightarrow> v)"

definition obj_set :: "string \<Rightarrow> jsval \<Rightarrow> jsobj \<Rightarrow> jsobj" where
  "obj_set k v obj = AList.update k v obj"

definition obj_delete :: "string \<Rightarrow> jsobj \<Rightarrow> jsobj" where
  "obj_delete k obj = AList.delete k obj"

definition obj_keys :: "jsobj \<Rightarrow> string list" where
  "obj_keys obj = map fst obj"

subsection \<open>Letter case\<close>

text \<open>
  \<open>toLowerCase\<close> on Latin-1: the capitals A to Z and those from \<open>0xC0\<close> to \<open>0xDE\<close> (the
  multiplication sign \<open>0xD7\<close> is not a letter) move up by \<open>0x20\<close>.
\<close>

definition toLower_char :: "char \<Rightarrow> char" where
  "toLower_char c =
     (let n = of_char c :: nat in
      if (0x41 \<le> n \<and> n \<le> 0x5A) \<or> (0xC0 \<le> n \<and> n \<le> 0xDE \<and> n \<noteq> 0xD7)
      then char_of (n + 0x20) else c)"

definition toLowerCase :: "string \<Rightarrow> string" where
  "toLowerCase s = map toLower_char s"

text \<open>
  \<open>toUpperCase\<close> on Latin-1. The small letters a to z and those from \<open>0xE0\<close> to \<open>0xFE\<close>
  (the division sign \<open>0xF7\<close> is not a letter) move down by \<open>0x20\<close>; the sharp s \<open>0xDF\<close>
  becomes the two letters SS; the micro sign \<open>0xB5\<close> and the y with diaeresis \<open>0xFF\<close> have
  their capitals outside Latin-1, at \<open>0x39C\<close> and \<open>0x178\<close>. The result is therefore given
  as a list of code units, and \<open>units\<close> gives the code units of a string of the model.
\<close>

definition units :: "string \<Rightarrow> nat list" where
  "units s = map of_char s"

definition toUpper_units :: "char \<Rightarrow> nat list" where
  "toUpper_units c =
     (let n = of_char c :: nat in
      if (0x61 \<le> n \<and> n \<le> 0x7A) \<or> (0xE0 \<le> n \<and> n \<le> 0xFE \<and> n \<noteq> 0xF7)
      then [n - 0x20]
      else if n = 0xDF then [0x53, 0x53]
      else if n = 0xB5 then [0x39C]
      else if n = 0xFF then [0x178]
      else [n])"

definition toUpperCase :: "string \<Rightarrow> nat list" where
  "toUpperCase s = concat (map toUpper_units s)"

subsection \<open>Other string operations\<close>

text \<open>\<open>s.includes(t)\<close>: \<open>t\<close> occurs in \<open>s\<close> at some position.\<close>

fun str_includes :: "'a list \<Rightarrow> 'a list \<Rightarrow> bool" where
  "str_includes [] t = (t = [])"
| "str_includes (c # cs) t = (prefix t (c # cs) \<or> str_includes cs t)"

definition substring :: "string \<Rightarrow> nat \<Rightarrow> nat \<Rightarrow> string" where
  "substring s a b = (let lo = min a b; hi = max a b in take (hi - lo) (drop lo s))"

text \<open>
  The white space and line terminators of ECMAScript that lie in Latin-1: tab, line feed,
  vertical tab, form feed, carriage return, space and the no-break space \<open>0xA0\<close>. These
  are what \<open>trim\<close> strips and what \<open>\s\<close> matches.
\<close>

definition isWhitespace :: "char \<Rightarrow> bool" where
  "isWhitespace c =
     (c \<in> set [CHR '' '', CHR 0x09, CHR 0x0A, CHR 0x0B, CHR 0x0C, CHR 0x0D, CHR 0xA0])"

definition trim :: "string \<Rightarrow> string" where
  "trim s = rev (dropWhile isWhitespace (rev (dropWhile isWhitespace s)))"

definition isDigit :: "char \<Rightarrow> bool" where
  "isDigit c = (c \<in> set ''0123456789'')"

definition upperLetters :: string where
  "upperLetters = ''ABCDEFGHIJKLMNOPQRSTUVWXYZ''"

definition isUpperAZ :: "char \<Rightarrow> bool" where
  "isUpperAZ c = (c \<in> set upperLetters)"

definition dquote :: char where
  "dquote = CHR 0x22"

definition backslash :: char where
  "backslash = CHR 0x5C"

definition newline :: char where
  "newline = CHR 0x0A"

fun intercalate :: "string \<Rightarrow> string list \<Rightarrow> string" where
  "intercalate sep [] = []"
| "intercalate sep [x] = x"
| "intercalate sep (x # y # ys) = x @ sep @ intercalate sep (y # ys)"

text \<open>Decimal rendering of an integer, as \<open>String(n)\<close> prints one below \<open>10^21\<close>.\<close>

fun show_nat :: "nat \<Rightarrow> string" where
  "show_nat n =
     (if n < 10 then [''0123456789'' ! n]
      else show_nat (n div 10) @ [''0123456789'' ! (n mod 10)])"

declare show_nat.simps [simp del]

definition show_int :: "int \<Rightarrow> string" where
  "show_int i = (if i < 0 then CHR ''-'' # show_nat (nat (- i)) else show_nat (nat i))"

text \<open>
  \<open>String(v)\<close>. An array is the texts of its elements joined by commas, with the empty
  text for \<open>null\<close> and \<open>undefined\<close>.
\<close>

fun toString :: "jsval \<Rightarrow> string" where
  "toString JUndefined = ''undefined''"
| "toString JNull = ''null''"
| "toString (JBool b) = (if b then ''true'' else ''false'')"
| "toString (JNum n) = show_int n"
| "toString (JStr s) = s"
| "toString (JArr xs) =
     intercalate '','' (map (\<lambda>v. if v = JUndefined \<or> v = JNull then [] else toString v) xs)"
| "toString (JObj ps) = ''[object Object]''"

subsection \<open>Base64, as \<open>Buffer.toString('base64')\<close> and \<open>btoa\<close> produce it\<close>

definition b64chars :: string where
  "b64chars = ''ABCDEFGHIJKLMNOPQRSTUVWXYZabcdefghijklmnopqrstuvwxyz0123456789+/''"

definition b64 :: "nat \<Rightarrow> char" where
  "b64 n = b64chars ! n"

fun base64 :: "nat list \<Rightarrow> string" where
  "base64 (a # b # c # rest) =
     [b64 (a div 4), b64 ((a mod 4) * 16 + b div 16), b64 ((b mod 16) * 4 + c div 64),
      b64 (c mod 64)] @ base64 rest"
| "base64 [a, b] =
     [b64 (a div 4), b64 ((a mod 4) * 16 + b div 16), b64 ((b mod 16) * 4), CHR ''='']"
| "base64 [a] = [b64 (a div 4), b64 ((a mod 4) * 16), CHR ''='', CHR ''='']"
| "base64 [] = []"

text \<open>
  The bytes \<open>Buffer.from\<close> gives for a string, its UTF-8 encoding: one byte for a code
  unit below \<open>0x80\<close> and two for the others of Latin-1.
\<close>

definition utf8 :: "string \<Rightarrow> nat list" where
  "utf8 s =
     concat (map (\<lambda>c. let n = of_char c :: nat in
                       if n < 0x80 then [n] else [0xC0 + n div 0x40, 0x80 + n mod 0x40]) s)"


subsection \<open>\<open>JSON.stringify\<close>\<close>

definition hexDigit :: "nat \<Rightarrow> char" where
  "hexDigit n = ''0123456789abcdef'' ! n"

definition json_escape_char :: "char \<Rightarrow> string" where
  "json_escape_char c =
     (if c = dquote then [backslash, dquote]
      else if c = backslash then [backslash, backslash]
      else if c = CHR 0x08 then [backslash, CHR ''b'']
      else if c = CHR 0x0C then [backslash, CHR ''f'']
      else if c = CHR 0x0A then [backslash, CHR ''n'']
      else if c = CHR 0x0D then [backslash, CHR ''r'']
      else if c = CHR 0x09 then [backslash, CHR ''t'']
      else if (of_char c :: nat) < 32
        then [backslash, CHR ''u'', CHR ''0'', CHR ''0'',
              hexDigit ((of_char c :: nat) div 16), hexDigit ((of_char c :: nat) mod 16)]
      else [c])"

definition json_quote :: "string \<Rightarrow> string" where
  "json_quote s = dquote # concat (map json_escape_char s) @ [dquote]"

text \<open>
  The properties of an object that are written: those whose value is not \<open>undefined\<close>,
  in the object's order; with an array \<open>keys\<close> as replacer, those named in \<open>keys\<close>, in
  the order of \<open>keys\<close> (a list without repetition, as \<open>Object.keys\<close> returns).
\<close>

definition json_properties :: "string list option \<Rightarrow> (string \<times> 'a option) list \<Rightarrow> 'a list" where
  "json_properties allow members =
     (case allow of
        None \<Rightarrow> List.map_filter snd members
      | Some keys \<Rightarrow>
          List.map_filter (\<lambda>k. case map_of members k of Some m \<Rightarrow> m | None \<Rightarrow> None) keys)"

text \<open>
  The text of a value; \<open>allow\<close> is the replacer array, if one is given, and it applies to
  the objects at every depth. In an array \<open>undefined\<close> is written \<open>null\<close>; \<open>undefined\<close>
  itself has no text.
\<close>

fun json_value :: "string list option \<Rightarrow> jsval \<Rightarrow> string" where
  "json_value allow JUndefined = []"
| "json_value allow JNull = ''null''"
| "json_value allow (JBool b) = (if b then ''true'' else ''false'')"
| "json_value allow (JNum n) = show_int n"
| "json_value allow (JStr s) = json_quote s"
| "json_value allow (JArr xs) =
     ''['' @ intercalate '',''
        (map (\<lambda>v. if v = JUndefined then ''null'' else json_value allow v) xs) @ '']''"
| "json_value allow (JObj ps) =
     ''{'' @ intercalate '',''
        (json_properties allow
          (map (\<lambda>(k, v). (k, if v = JUndefined then None
                               else Some (json_quote k @ '':'' @ json_value allow v))) ps))
      @ ''}''"

definition JSON_stringify :: "jsobj \<Rightarrow> string" where
  "JSON_stringify obj = json_value None (JObj obj)"

text \<open>\<open>JSON.stringify(record, keys)\<close> with an array as replacer.\<close>

definition JSON_stringify_keys :: "jsobj \<Rightarrow> string list \<Rightarrow> string" where
  "JSON_stringify_keys obj keys = json_value (Some keys) (JObj obj)"

section \<open>The bulk importer (scripts/import-data.js)\<close>

text \<open>The counters \<open>this.importStats\<close> of a \<open>SecureDataImporter\<close>.\<close>

record importStats =
  totalRecords :: nat
  processedRecords :: nat
  encryptedFields :: nat
  errors :: nat
  warnings :: nat

text \<open>The counters as the constructor sets them.\<close>

definition newImporter :: importStats where
  "newImporter = \<lparr>totalRecords = 0, processedRecords = 0, encryptedFields = 0, errors = 0,
     warnings = 0\<rparr>"

definition batchSize :: nat where
  "batchSize = 100"

subsection \<open>Date normalization\<close>

text \<open>
  A row of the CSV parser maps a header name to the cell's text and has no entry for a
  column the file lacks.
\<close>

type_synonym row = "string \<rightharpoonup> string"

definition monthMap :: "(string \<times> string) list" where
  "monthMap =
     [(''JAN'', ''01''), (''FEB'', ''02''), (''MAR'', ''03''), (''APR'', ''04''),
      (''MAY'', ''05''), (''JUN'', ''06''), (''JUL'', ''07''), (''AUG'', ''08''),
      (''SEP'', ''09''), (''OCT'', ''10''), (''NOV'', ''11''), (''DEC'', ''12'')]"

text \<open>The test \<open>/^\d{2}[A-Z]{3}\d{2}$/\<close>.\<close>

definition matchesDDMMMYY :: "string \<Rightarrow> bool" where
  "matchesDDMMMYY s =
     (case s of
        [d1, d2, m1, m2, m3, y1, y2] \<Rightarrow>
          isDigit d1 \<and> isDigit d2 \<and> isUpperAZ m1 \<and> isUpperAZ m2 \<and> isUpperAZ m3
          \<and> isDigit y1 \<and> isDigit y2
      | _ \<Rightarrow> False)"

text \<open>
  The rewriting of a matching string to \<open>`${year}-${monthMap[month]}-${day}`\<close>; a month
  that the table lacks is interpolated as the text \<open>undefined\<close>.
\<close>

definition rewriteDDMMMYY :: "string \<Rightarrow> string" where
  "rewriteDDMMMYY cleanDate =
     (let day = substring cleanDate 0 2;
          month = substring cleanDate 2 5;
          year = ''20'' @ substring cleanDate 5 7
      in year @ ''-'' @ (case map_of monthMap month of Some m \<Rightarrow> m | None \<Rightarrow> ''undefined'')
         @ ''-'' @ day)"

definition normalizeDate :: "string \<Rightarrow> string" where
  "normalizeDate dateString =
     (let cleanDate = trim dateString
      in if matchesDDMMMYY cleanDate then rewriteDDMMMYY cleanDate else cleanDate)"

text \<open>
  \<open>parseDate(dateString)\<close>. The platform's \<open>Date\<close> is the parameter \<open>newDate\<close>: for the
  text given to \<open>new Date\<close> it is \<open>None\<close> when the date is invalid (\<open>getTime()\<close> is NaN)
  and otherwise the date part of \<open>toISOString()\<close>. A cell is \<open>None\<close> when the column is
  missing; the result \<open>None\<close> is \<open>null\<close>.
\<close>

definition parseDate ::
  "(string \<Rightarrow> string option) \<Rightarrow> string option \<Rightarrow> importStats \<Rightarrow> string option \<times> importStats" where
  "parseDate newDate dateString st =
     (case dateString of
        None \<Rightarrow> (None, st)
      | Some s \<Rightarrow>
          if s = [] \<or> trim s = [] then (None, st)
          else (case newDate (normalizeDate s) of
                  None \<Rightarrow> (None, st\<lparr>warnings := warnings st + 1\<rparr>)
                | Some d \<Rightarrow> (Some d, st)))"

text \<open>
  A platform \<open>Date\<close> for evaluating examples: it accepts the ECMAScript date-only form
  \<open>YYYY-MM-DD\<close> with a month from 01 to 12 and a day from 01 to the month's length, which
  every engine reads as that UTC day, and nothing else.
\<close>

definition twoDigits :: "char \<Rightarrow> char \<Rightarrow> nat" where
  "twoDigits a b = (of_char a - 48) * 10 + (of_char b - 48)"

definition daysInMonth :: "nat \<Rightarrow> nat \<Rightarrow> nat" where
  "daysInMonth y m =
     (if m = 2 then (if y mod 4 = 0 \<and> (y mod 400 = 0 \<or> y mod 100 \<noteq> 0) then 29 else 28)
      else if m \<in> set [4, 6, 9, 11] then 30 else 31)"

definition isoDateOnly :: "string \<Rightarrow> string option" where
  "isoDateOnly s =
     (case s of
        [y1, y2, y3, y4, h1, m1, m2, h2, d1, d2] \<Rightarrow>
          if list_all isDigit [y1, y2, y3, y4, m1, m2, d1, d2] \<and> h1 = CHR ''-'' \<and> h2 = CHR ''-''
             \<and> 1 \<le> twoDigits m1 m2 \<and> twoDigits m1 m2 \<le> 12 \<and> 1 \<le> twoDigits d1 d2
             \<and> twoDigits d1 d2
                 \<le> daysInMonth (twoDigits y1 y2 * 100 + twoDigits y3 y4) (twoDigits m1 m2)
          then Some s else None
      | _ \<Rightarrow> None)"

subsection \<open>Reading the CSV rows\<close>

definition cell :: "string option \<Rightarrow> jsval" where
  "cell c = (case c of None \<Rightarrow> JUndefined | Some s \<Rightarrow> JStr s)"

definition dateCell :: "string option \<Rightarrow> jsval" where
  "dateCell c = (case c of None \<Rightarrow> JNull | Some s \<Rightarrow> JStr s)"

text \<open>The handler of the parser's \<open>data\<close> event: one record per row.\<close>

definition mapRow ::
  "(string \<Rightarrow> string option) \<Rightarrow> row \<Rightarrow> importStats \<Rightarrow> jsobj \<times> importStats" where
  "mapRow newDate r st =
     (let (occurred, st1) = parseDate newDate (r ''When did the event occur?'') st;
          (detected, st2) = parseDate newDate (r ''When was the event detected?'') st1
      in ([(''original_id'', cell (r ''ID'')),
           (''short_description'', cell (r ''Short Description'')),
           (''contact_organizer'', cell (r ''Contact / Organizer'')),
           (''location'', cell (r ''Where (building/room #/lab)?'')),
           (''event_occurred'', dateCell occurred),
           (''event_detected'', dateCell detected),
           (''expected_results'', cell (r ''Expected Results'')),
           (''process_confidence'', cell (r ''Based on process conf., Gemba 100% effective'')),
           (''gemba_outcome'', cell (r ''Outcome of Gemba''))], st2))"

fun readCSVFile ::
  "(string \<Rightarrow> string option) \<Rightarrow> row list \<Rightarrow> importStats \<Rightarrow> jsobj list \<times> importStats" where
  "readCSVFile newDate [] st = ([], st)"
| "readCSVFile newDate (r # rs) st =
     (let (record, st1) = mapRow newDate r st;
          (records, st2) = readCSVFile newDate rs st1
      in (record # records, st2))"

section \<open>Department classification (import-data.js, demo-import.js)\<close>

text \<open>
  \<open>extractDepartment(location)\<close> of \<open>SecureDataImporter\<close>. A falsy location gives the
  default; a truthy value that is not a string has no \<open>toUpperCase\<close> method, and the
  call raises a TypeError.
\<close>

definition extractDepartment :: "jsval \<Rightarrow> jserror + string" where
  "extractDepartment location =
     (if \<not> truthy location then Inr ''general''
      else case location of
        JStr s \<Rightarrow>
          (let locationUpper = toUpperCase s in
           if str_includes locationUpper (units ''NYA'') then Inr ''NYA''
           else if str_includes locationUpper (units ''FORBES'') then Inr ''FORBES''
           else if str_includes locationUpper (units ''QC'') then Inr ''QC''
           else if str_includes locationUpper (units ''MICRO'') then Inr ''MICROBIOLOGY''
           else Inr ''general'')
      | _ \<Rightarrow> Inl TypeError)"

text \<open>\<open>identifyDepartment(location)\<close> of \<open>DemoImportProcess\<close>: the same chain.\<close>

definition identifyDepartment :: "jsval \<Rightarrow> jserror + string" where
  "identifyDepartment location =
     (if \<not> truthy location then Inr ''general''
      else case location of
        JStr s \<Rightarrow>
          (let locationUpper = toUpperCase s in
           if str_includes locationUpper (units ''NYA'') then Inr ''NYA''
           else if str_includes locationUpper (units ''FORBES'') then Inr ''FORBES''
           else if str_includes locationUpper (units ''QC'') then Inr ''QC''
           else if str_includes locationUpper (units ''MICRO'') then Inr ''MICROBIOLOGY''
           else Inr ''general'')
      | _ \<Rightarrow> Inl TypeError)"

text \<open>
  The specification's reading, for comparison with the code: an ordered keyword table,
  a case-insensitive substring test, the first matching entry wins, and \<open>general\<close>
  when no entry matches. Two characters are the same ignoring case when they are equal
  or one is a capital from A to Z and the other its small letter; a keyword occurs in a
  text ignoring case when at some position of the text its characters follow, each the
  same ignoring case.
\<close>

definition departmentKeywords :: "(string \<times> string) list" where
  "departmentKeywords =
     [(''NYA'', ''NYA''), (''FORBES'', ''FORBES''), (''QC'', ''QC''), (''MICRO'', ''MICROBIOLOGY'')]"

definition sameLetter :: "char \<Rightarrow> char \<Rightarrow> bool" where
  "sameLetter a b =
     (let m = of_char a :: nat; n = of_char b :: nat in
      m = n \<or> (0x41 \<le> m \<and> m \<le> 0x5A \<and> n = m + 0x20) \<or> (0x41 \<le> n \<and> n \<le> 0x5A \<and> m = n + 0x20))"

fun ci_prefix :: "string \<Rightarrow> string \<Rightarrow> bool" where
  "ci_prefix [] s = True"
| "ci_prefix (k # ks) [] = False"
| "ci_prefix (k # ks) (c # cs) = (sameLetter k c \<and> ci_prefix ks cs)"

fun ci_substring :: "string \<Rightarrow> string \<Rightarrow> bool" where
  "ci_substring k [] = (k = [])"
| "ci_substring k (c # cs) = (ci_prefix k (c # cs) \<or> ci_substring k cs)"

definition department_spec :: "string \<Rightarrow> string" where
  "department_spec loc =
     (case find (\<lambda>(k, d). ci_substring k loc) departmentKeywords of
        Some (k, d) \<Rightarrow> d
      | None \<Rightarrow> ''general'')"

text \<open>The same table read with the test of the code: the keyword occurs in the upper-cased location.\<close>

definition department_upper :: "string \<Rightarrow> string" where
  "department_upper loc =
     (case find (\<lambda>(k, d). str_includes (toUpperCase loc) (units k)) departmentKeywords of
        Some (k, d) \<Rightarrow> d
      | None \<Rightarrow> ''general'')"

section \<open>Securing and uploading the records (scripts/import-data.js)\<close>

text \<open>
  \<open>simpleEncrypt(data)\<close> and \<open>simpleHash(data)\<close> on a string. \<open>encryptSensitiveData\<close>
  also reaches them with an array: \<open>Buffer.from\<close> then stores each element as one byte,
  its number modulo 256 (\<open>toByte\<close> is this conversion of the platform, a parameter of the
  model), and \<open>data + 'salt'\<close> is the text of the array followed by \<open>salt\<close>.
\<close>

definition simpleEncrypt :: "string \<Rightarrow> string" where
  "simpleEncrypt data = base64 (utf8 data) @ ''_encrypted''"

definition simpleEncryptArray :: "(jsval \<Rightarrow> nat) \<Rightarrow> jsval list \<Rightarrow> string" where
  "simpleEncryptArray toByte xs = base64 (map (\<lambda>x. toByte x mod 256) xs) @ ''_encrypted''"

definition simpleHash :: "string \<Rightarrow> string" where
  "simpleHash data = substring (base64 (utf8 (data @ ''salt''))) 0 32"

text \<open>
  \<open>encryptSensitiveData(record)\<close>. The test \<open>record.contact_organizer.includes('@')\<close>
  stands outside the method's \<open>try\<close>. On a string it asks whether \<open>@\<close> occurs in it; on
  an array it is \<open>Array.prototype.includes\<close> and asks whether the string \<open>@\<close> is an
  element; any other truthy value has no \<open>includes\<close> method and the call raises a
  TypeError to the caller. Inside the \<open>try\<close>, the two encoders do not raise on a string
  or an array.
\<close>

definition encryptSensitiveData ::
  "(jsval \<Rightarrow> nat) \<Rightarrow> jsobj \<Rightarrow> importStats \<Rightarrow> jserror + (jsobj \<times> importStats)" where
  "encryptSensitiveData toByte record st =
     (let contact = obj_get record ''contact_organizer'' in
      if \<not> truthy contact then Inr (record, st)
      else case contact of
        JStr s \<Rightarrow>
          if str_includes s ''@''
          then Inr (obj_delete ''contact_organizer''
                     (obj_set ''contact_organizer_hash'' (JStr (simpleHash s))
                       (obj_set ''contact_organizer_encrypted'' (JStr (simpleEncrypt s)) record)),
                    st\<lparr>encryptedFields := encryptedFields st + 1\<rparr>)
          else Inr (record, st)
      | JArr xs \<Rightarrow>
          if JStr ''@'' \<in> set xs
          then Inr (obj_delete ''contact_organizer''
                     (obj_set ''contact_organizer_hash'' (JStr (simpleHash (toString contact)))
                       (obj_set ''contact_organizer_encrypted''
                          (JStr (simpleEncryptArray toByte xs)) record)),
                    st\<lparr>encryptedFields := encryptedFields st + 1\<rparr>)
          else Inr (record, st)
      | _ \<Rightarrow> Inl TypeError)"

definition classifyRecord :: "jsobj \<Rightarrow> string" where
  "classifyRecord record =
     (let content = toLowerCase (JSON_stringify record) in
      if str_includes content ''@'' \<or> str_includes content ''email'' then ''internal''
      else if str_includes content ''confidential'' \<or> str_includes content ''sensitive''
        then ''confidential''
      else ''internal'')"

definition generateDataHash :: "jsobj \<Rightarrow> string" where
  "generateDataHash record = simpleHash (JSON_stringify_keys record (sort (obj_keys record)))"

text \<open>The one-entry audit log, serialized; \<open>now\<close> is \<open>new Date().toISOString()\<close>.\<close>

definition auditLog :: "string \<Rightarrow> string \<Rightarrow> string" where
  "auditLog now batchId =
     ''['' @ JSON_stringify
        [(''action'', JStr ''IMPORT''), (''timestamp'', JStr now),
         (''user'', JStr ''data-import@system''), (''source'', JStr ''Gemba Requests.csv''),
         (''batch'', JStr batchId)] @ '']''"

text \<open>
  The body of the \<open>try\<close> in \<open>processRecords\<close> for one record, up to the object that is
  pushed. \<open>clock k\<close> is the time read while record number \<open>k\<close> of the input is processed,
  and \<open>batchId\<close> the text \<open>`import_${Date.now()}`\<close>. The counters are returned as they
  stand when the body ends or raises.
\<close>

definition secureRecord ::
  "(jsval \<Rightarrow> nat) \<Rightarrow> (nat \<Rightarrow> string) \<Rightarrow> string \<Rightarrow> nat \<Rightarrow> jsobj \<Rightarrow> importStats \<Rightarrow> (jserror + jsobj) \<times> importStats" where
  "secureRecord toByte clock batchId k record st =
     (case encryptSensitiveData toByte record st of
        Inl e \<Rightarrow> (Inl e, st)
      | Inr (encryptedRecord, st1) \<Rightarrow>
          (case extractDepartment (obj_get record ''location'') of
             Inl e \<Rightarrow> (Inl e, st1)
           | Inr department \<Rightarrow>
               (Inr (obj_set ''audit_log'' (JStr (auditLog (clock k) batchId))
                      (obj_set ''import_batch'' (JStr batchId)
                        (obj_set ''data_hash'' (JStr (generateDataHash record))
                          (obj_set ''security_classification'' (JStr (classifyRecord record))
                            (obj_set ''department'' (JStr department) encryptedRecord))))),
                st1)))"

text \<open>One turn of the inner loop: the \<open>try\<close> and its \<open>catch\<close>.\<close>

definition processOne ::
  "(jsval \<Rightarrow> nat) \<Rightarrow> (nat \<Rightarrow> string) \<Rightarrow> string \<Rightarrow> nat \<Rightarrow> jsobj \<Rightarrow> jsobj list \<times> importStats
    \<Rightarrow> jsobj list \<times> importStats" where
  "processOne toByte clock batchId k record acc =
     (case acc of (out, st) \<Rightarrow>
        (case secureRecord toByte clock batchId k record st of
           (Inr secure, st1) \<Rightarrow> (out @ [secure], st1\<lparr>processedRecords := processedRecords st1 + 1\<rparr>)
         | (Inl e, st1) \<Rightarrow> (out, st1\<lparr>errors := errors st1 + 1\<rparr>)))"

text \<open>The inner loop over a batch whose first record is number \<open>k\<close> of the input.\<close>

fun processBatch ::
  "(jsval \<Rightarrow> nat) \<Rightarrow> (nat \<Rightarrow> string) \<Rightarrow> string \<Rightarrow> nat \<Rightarrow> jsobj list \<Rightarrow> jsobj list \<times> importStats
    \<Rightarrow> jsobj list \<times> importStats" where
  "processBatch toByte clock batchId k [] acc = acc"
| "processBatch toByte clock batchId k (record # rest) acc =
     processBatch toByte clock batchId (Suc k) rest (processOne toByte clock batchId k record acc)"

text \<open>\<open>xs.slice(a, b)\<close> for \<open>a \<le> b\<close>.\<close>

definition slice :: "'a list \<Rightarrow> nat \<Rightarrow> nat \<Rightarrow> 'a list" where
  "slice xs a b = take (b - a) (drop a xs)"

text \<open>The outer loop \<open>for (let i = 0; i < records.length; i += this.batchSize)\<close>.\<close>

function processBatches ::
  "(jsval \<Rightarrow> nat) \<Rightarrow> (nat \<Rightarrow> string) \<Rightarrow> string \<Rightarrow> nat \<Rightarrow> jsobj list \<Rightarrow> jsobj list \<times> importStats
    \<Rightarrow> jsobj list \<times> importStats" where
  "processBatches toByte clock batchId i records acc =
     (if i < length records
      then processBatches toByte clock batchId (i + batchSize) records
             (processBatch toByte clock batchId i (slice records i (i + batchSize)) acc)
      else acc)"
  by pat_completeness auto
termination
  by (relation "measure (\<lambda>(toByte, clock, batchId, i, records, acc). length records - i)")
    (auto simp: batchSize_def)

declare processBatches.simps [simp del]

definition processRecords ::
  "(jsval \<Rightarrow> nat) \<Rightarrow> (nat \<Rightarrow> string) \<Rightarrow> string \<Rightarrow> jsobj list \<Rightarrow> importStats
    \<Rightarrow> jsobj list \<times> importStats" where
  "processRecords toByte clock batchId records st =
     processBatches toByte clock batchId 0 records ([], st)"

subsection \<open>Upload\<close>

definition uploadBatchSize :: nat where
  "uploadBatchSize = 50"

text \<open>
  \<open>uploadToDatabase(processedRecords)\<close>. The call to the store is simulated in the script;
  \<open>apiOk i\<close> says whether the body of the \<open>try\<close> for the batch that starts at \<open>i\<close> runs to
  its end (in the script as it stands it always does). The pair is \<open>uploadedCount\<close> and
  the counters.
\<close>

function uploadBatches ::
  "(nat \<Rightarrow> bool) \<Rightarrow> nat \<Rightarrow> jsobj list \<Rightarrow> nat \<times> importStats \<Rightarrow> nat \<times> importStats" where
  "uploadBatches apiOk i processed acc =
     (if i < length processed
      then uploadBatches apiOk (i + uploadBatchSize) processed
             (case acc of (uploadedCount, st) \<Rightarrow>
                (let batch = slice processed i (i + uploadBatchSize) in
                 if apiOk i then (uploadedCount + length batch, st)
                 else (uploadedCount, st\<lparr>errors := errors st + length batch\<rparr>)))
      else acc)"
  by pat_completeness auto
termination
  by (relation "measure (\<lambda>(apiOk, i, processed, acc). length processed - i)")
    (auto simp: uploadBatchSize_def)

declare uploadBatches.simps [simp del]

definition uploadToDatabase :: "(nat \<Rightarrow> bool) \<Rightarrow> jsobj list \<Rightarrow> importStats \<Rightarrow> nat \<times> importStats" where
  "uploadToDatabase apiOk processed st = uploadBatches apiOk 0 processed (0, st)"

subsection \<open>The import run\<close>

definition failureResult :: "string \<Rightarrow> jsobj" where
  "failureResult message = [(''success'', JBool False), (''error'', JStr message)]"

text \<open>
  \<open>importData(csvFilePath)\<close>. \<open>hasCredentials\<close> is the test of \<open>initialize\<close>, \<open>connected\<close>
  the result of \<open>testConnection\<close>; the file is the rows the parser delivers and the
  message of a stream error after them, if one occurs. The result is the object the
  method returns (messages without their leading pictograph), with the counters.
\<close>

definition importData ::
  "bool \<Rightarrow> bool \<Rightarrow> (string \<Rightarrow> string option) \<Rightarrow> (jsval \<Rightarrow> nat) \<Rightarrow> (nat \<Rightarrow> string) \<Rightarrow> string
    \<Rightarrow> (nat \<Rightarrow> bool) \<Rightarrow> row list \<times> string option \<Rightarrow> importStats \<Rightarrow> jsobj \<times> importStats" where
  "importData hasCredentials connected newDate toByte clock batchId apiOk csv st =
     (if \<not> hasCredentials
      then (failureResult
              ''Missing Supabase credentials. Set SUPABASE_URL and SUPABASE_SERVICE_KEY environment variables.'',
            st)
      else if \<not> connected then (failureResult ''Database connection failed'', st)
      else case csv of (rows, streamError) \<Rightarrow>
        (let (records, st1) = readCSVFile newDate rows st in
         case streamError of
           Some message \<Rightarrow> (failureResult message, st1)
         | None \<Rightarrow>
             (let st2 = st1\<lparr>totalRecords := length records\<rparr>;
                  (processed, st3) = processRecords toByte clock batchId records st2;
                  (uploadedCount, st4) = uploadToDatabase apiOk processed st3
              in ([(''success'', JBool True),
                   (''totalRecords'', JNum (int (totalRecords st4))),
                   (''uploadedRecords'', JNum (int uploadedCount)),
                   (''errors'', JNum (int (errors st4)))], st4))))"

subsection \<open>What a run emits and what it counts\<close>

text \<open>
  What the body of the \<open>try\<close> yields for record number \<open>k\<close>: the object to push or the
  error raised (neither depends on the counters), the objects a list of records
  contributes, and the number of its records on which the body raises. Used to state
  what \<open>processRecords\<close> returns.
\<close>

definition securedRow ::
  "(jsval \<Rightarrow> nat) \<Rightarrow> (nat \<Rightarrow> string) \<Rightarrow> string \<Rightarrow> nat \<Rightarrow> jsobj \<Rightarrow> jserror + jsobj" where
  "securedRow toByte clock batchId k record =
     fst (secureRecord toByte clock batchId k record newImporter)"

definition emitted ::
  "(jsval \<Rightarrow> nat) \<Rightarrow> (nat \<Rightarrow> string) \<Rightarrow> string \<Rightarrow> nat \<Rightarrow> jsobj list \<Rightarrow> jsobj list" where
  "emitted toByte clock batchId k records =
     List.map_filter
       (\<lambda>(j, r). case securedRow toByte clock batchId j r of Inr x \<Rightarrow> Some x | Inl e \<Rightarrow> None)
       (enumerate k records)"

definition failedRows ::
  "(jsval \<Rightarrow> nat) \<Rightarrow> (nat \<Rightarrow> string) \<Rightarrow> string \<Rightarrow> nat \<Rightarrow> jsobj list \<Rightarrow> nat" where
  "failedRows toByte clock batchId k records =
     length (filter (\<lambda>(j, r). isl (securedRow toByte clock batchId j r)) (enumerate k records))"

text \<open>
  The offsets \<open>i, i + 50, \<dots>\<close> below \<open>n\<close> at which upload batches start, and the length of
  the batch that starts at an offset.
\<close>

definition batchStarts :: "nat \<Rightarrow> nat \<Rightarrow> nat list" where
  "batchStarts i n =
     map (\<lambda>j. i + j * uploadBatchSize) [0..<(n - i + uploadBatchSize - 1) div uploadBatchSize]"

definition batchLength :: "nat \<Rightarrow> nat \<Rightarrow> nat" where
  "batchLength n i = min uploadBatchSize (n - i)"

section \<open>The simplified importer (scripts/simple-import.js)\<close>





section \<open>The user portal: form submission\<close>


text \<open>\<open>key.replace('_', ' ')\<close>: the first underscore becomes a space.\<close>

definition replaceFirstUnderscore :: "string \<Rightarrow> string" where
  "replaceFirstUnderscore key =
     (case dropWhile (\<lambda>c. c \<noteq> CHR ''_'') key of
        [] \<Rightarrow> key
      | u # rest \<Rightarrow> takeWhile (\<lambda>c. c \<noteq> CHR ''_'') key @ CHR '' '' # rest)"






record portalUser =
  email :: string
  department :: string







section \<open>The user portal: exports\<close>

text \<open>\<open>value.replace(/"/g, '""')\<close>.\<close>

definition doubleQuotes :: "string \<Rightarrow> string" where
  "doubleQuotes s = concat (map (\<lambda>c. if c = dquote then [dquote, dquote] else [c]) s)"

text \<open>One cell of a CSV line: the body of \<open>columns.map\<close>, then the text \<open>join\<close> makes of it.\<close>

definition csvField :: "jsval \<Rightarrow> string" where
  "csvField v =
     (let value = (if truthy v then v else JStr []) in
      case value of
        JStr s \<Rightarrow>
          (let escaped = doubleQuotes s in
           if str_includes escaped '','' \<or> str_includes escaped [newline]
              \<or> str_includes escaped [dquote]
           then dquote # escaped @ [dquote]
           else escaped)
      | other \<Rightarrow> toString other)"

definition excludeFields :: "string list" where
  "excludeFields =
     [''contact_organizer_encrypted'', ''contact_organizer_hash'', ''data_hash'', ''audit_log'']"

definition csvColumns :: "jsobj \<Rightarrow> string list" where
  "csvColumns first = filter (\<lambda>key. key \<notin> set excludeFields) (obj_keys first)"

definition csvLine :: "string list \<Rightarrow> jsobj \<Rightarrow> string" where
  "csvLine columns record =
     intercalate '','' (map (\<lambda>col. csvField (obj_get record col)) columns) @ [newline]"

text \<open>
  \<open>exportToCSV(data, filename)\<close>: the text put in the download. On an empty list
  \<open>Object.keys(data[0])\<close> raises a TypeError.
\<close>

definition exportToCSV :: "jsobj list \<Rightarrow> jserror + string" where
  "exportToCSV data =
     (case data of
        [] \<Rightarrow> Inl TypeError
      | first # _ \<Rightarrow>
          (let columns = csvColumns first in
           Inr (intercalate '','' columns @ [newline] @ concat (map (csvLine columns) data))))"

text \<open>
  \<open>exportToExcel(data, filename)\<close>: the rows given to the sheet writer, whose column
  names are the keys of these rows.
\<close>

text \<open>The body of \<open>Object.keys(record).forEach\<close>, for one key.\<close>

definition cleanStep :: "jsobj \<Rightarrow> string \<Rightarrow> jsobj \<Rightarrow> jsobj" where
  "cleanStep record key acc =
     (if \<not> str_includes key ''encrypted'' \<and> \<not> str_includes key ''hash''
         \<and> key \<noteq> ''audit_log''
      then obj_set (replaceFirstUnderscore key) (obj_get record key) acc
      else acc)"

definition cleanRecord :: "jsobj \<Rightarrow> jsobj" where
  "cleanRecord record = fold (cleanStep record) (obj_keys record) []"

definition exportToExcel_cleanData :: "jsobj list \<Rightarrow> jsobj list" where
  "exportToExcel_cleanData data = map cleanRecord data"

text \<open>
  The names the specification wants exported: those that do not contain \<open>encrypted\<close> or
  \<open>hash\<close> and are not \<open>audit_log\<close>.
\<close>

definition exportableName :: "string \<Rightarrow> bool" where
  "exportableName key =
     (\<not> str_includes key ''encrypted'' \<and> \<not> str_includes key ''hash'' \<and> key \<noteq> ''audit_log'')"

text \<open>
  Reading a CSV field back as RFC 4180 prescribes: a field that starts with a quote
  loses its enclosing quotes and has every doubled quote halved.
\<close>

fun undoubleQuotes :: "string \<Rightarrow> string" where
  "undoubleQuotes (a # b # rest) =
     (if a = dquote \<and> b = dquote then dquote # undoubleQuotes rest
      else a # undoubleQuotes (b # rest))"
| "undoubleQuotes [a] = [a]"
| "undoubleQuotes [] = []"

definition csvDecodeField :: "string \<Rightarrow> string" where
  "csvDecodeField field =
     (case field of
        [] \<Rightarrow> []
      | c # rest \<Rightarrow> if c = dquote then undoubleQuotes (butlast rest) else field)"

subsection \<open>An example row\<close>

text \<open>A row with a description and an organizer's address, the other columns missing.\<close>

definition demoRow :: row where
  "demoRow =
     map_of [(''Short Description'', ''Confidential audit''), (''Contact / Organizer'', ''a@b.c'')]"


text \<open>No example holds an array that reaches \<open>Buffer.from\<close>; the conversion given there is immaterial.\<close>

definition noByte :: "jsval \<Rightarrow> nat" where
  "noByte v = 0"








section \<open>Facts about the string operations\<close>

lemma str_includes_sublist: "str_includes s t \<longleftrightarrow> sublist t s"
proof (induction s)
  case Nil
  show ?case by simp
next
  case (Cons c cs)
  show ?case
  proof (cases t)
    case Nil
    then show ?thesis by simp
  next
    case (Cons d ds)
    with Cons.IH show ?thesis by (simp add: sublist_Cons_right)
  qed
qed

lemma of_char_lower:
  "(of_char (toLower_char c) :: nat) =
     (if (0x41 \<le> (of_char c :: nat) \<and> (of_char c :: nat) \<le> 0x5A)
         \<or> (0xC0 \<le> (of_char c :: nat) \<and> (of_char c :: nat) \<le> 0xDE \<and> (of_char c :: nat) \<noteq> 0xD7)
      then of_char c + 0x20 else of_char c)"
  by (simp add: toLower_char_def Let_def)

lemma lower_same:
  assumes "(of_char k :: nat) < 0x41 \<or> (0x5A < (of_char k :: nat) \<and> (of_char k :: nat) < 0x80)"
  shows "toLower_char c = k \<longleftrightarrow> sameLetter k c"
proof -
  have "toLower_char c = k \<longleftrightarrow> (of_char (toLower_char c) :: nat) = of_char k"
    by simp
  also have "\<dots> \<longleftrightarrow> sameLetter k c"
    using assms unfolding of_char_lower sameLetter_def Let_def by auto
  finally show ?thesis .
qed

lemma upper_same:
  assumes "0x41 \<le> (of_char k :: nat)" "(of_char k :: nat) \<le> 0x5A"
  shows "toUpper_units c = [of_char k] \<longleftrightarrow> sameLetter k c"
  using assms unfolding toUpper_units_def sameLetter_def Let_def by auto

lemma prefix_map_ci:
  assumes "list_all2 (\<lambda>u k. \<forall>c \<in> A. f c = u \<longleftrightarrow> sameLetter k c) us ks"
    and "set s \<subseteq> A"
  shows "prefix us (map f s) \<longleftrightarrow> ci_prefix ks s"
  using assms
proof (induction us ks arbitrary: s rule: list_all2_induct)
  case Nil
  show ?case by simp
next
  case (Cons u us k ks)
  show ?case
  proof (cases s)
    case Nil
    then show ?thesis by simp
  next
    case s: (Cons c cs)
    with Cons.prems have "c \<in> A" "set cs \<subseteq> A" by simp_all
    from Cons.hyps(1) this(1) have head: "f c = u \<longleftrightarrow> sameLetter k c" by (rule bspec)
    from Cons.IH [OF \<open>set cs \<subseteq> A\<close>] head s show ?thesis by auto
  qed
qed

lemma includes_map_ci:
  assumes "list_all2 (\<lambda>u k. \<forall>c \<in> A. f c = u \<longleftrightarrow> sameLetter k c) us ks"
    and "set s \<subseteq> A"
  shows "str_includes (map f s) us \<longleftrightarrow> ci_substring ks s"
  using assms(2)
proof (induction s)
  case Nil
  from assms(1) show ?case by (cases us; cases ks) simp_all
next
  case (Cons c cs)
  then have "set cs \<subseteq> A" by simp
  from Cons.IH [OF this] prefix_map_ci [OF assms(1) Cons.prems] show ?case by simp
qed

lemma includes_lower_ci:
  assumes "\<forall>k \<in> set kw. (of_char k :: nat) < 0x41 \<or> (0x5A < (of_char k :: nat) \<and> (of_char k :: nat) < 0x80)"
  shows "str_includes (toLowerCase s) kw \<longleftrightarrow> ci_substring kw s"
proof -
  from assms have "list_all2 (\<lambda>u k. \<forall>c \<in> UNIV. toLower_char c = u \<longleftrightarrow> sameLetter k c) kw kw"
    by (simp add: list_all2_same lower_same)
  then show ?thesis unfolding toLowerCase_def by (rule includes_map_ci) simp
qed

lemma classifyRecord_spec:
  "classifyRecord r =
     (if ci_substring ''@'' (JSON_stringify r) \<or> ci_substring ''email'' (JSON_stringify r)
      then ''internal''
      else if ci_substring ''confidential'' (JSON_stringify r)
            \<or> ci_substring ''sensitive'' (JSON_stringify r)
        then ''confidential''
      else ''internal'')"
proof -
  have "str_includes (toLowerCase s) ''@'' \<longleftrightarrow> ci_substring ''@'' s"
    "str_includes (toLowerCase s) ''email'' \<longleftrightarrow> ci_substring ''email'' s"
    "str_includes (toLowerCase s) ''confidential'' \<longleftrightarrow> ci_substring ''confidential'' s"
    "str_includes (toLowerCase s) ''sensitive'' \<longleftrightarrow> ci_substring ''sensitive'' s" for s
    by (rule includes_lower_ci, simp)+
  then show ?thesis by (simp add: classifyRecord_def Let_def)
qed

lemma toUpper_units_single: "c \<noteq> CHR 0xDF \<Longrightarrow> toUpper_units c = [hd (toUpper_units c)]"
proof -
  assume "c \<noteq> CHR 0xDF"
  then have "(of_char c :: nat) \<noteq> of_char (CHR 0xDF)" by (simp only: of_char_eq_iff not_False_eq_True)
  then show ?thesis by (simp add: toUpper_units_def Let_def)
qed

lemma toUpperCase_map:
  "CHR 0xDF \<notin> set s \<Longrightarrow> toUpperCase s = map (\<lambda>c. hd (toUpper_units c)) s"
proof (induction s)
  case Nil
  show ?case by (simp add: toUpperCase_def)
next
  case (Cons c cs)
  then have "c \<noteq> CHR 0xDF" "CHR 0xDF \<notin> set cs" by auto
  with Cons.IH toUpper_units_single [of c] show ?case by (simp add: toUpperCase_def)
qed

lemma includes_upper_ci:
  assumes nosharp: "CHR 0xDF \<notin> set s"
    and kw: "\<forall>k \<in> set kw. 0x41 \<le> (of_char k :: nat) \<and> (of_char k :: nat) \<le> 0x5A"
  shows "str_includes (toUpperCase s) (units kw) \<longleftrightarrow> ci_substring kw s"
proof -
  have one: "hd (toUpper_units c) = of_char k \<longleftrightarrow> sameLetter k c"
    if "c \<in> set s" "k \<in> set kw" for c k
  proof -
    from that nosharp have "c \<noteq> CHR 0xDF" by auto
    then have "toUpper_units c = [hd (toUpper_units c)]" by (rule toUpper_units_single)
    then have "hd (toUpper_units c) = of_char k \<longleftrightarrow> toUpper_units c = [of_char k]"
      by (metis list.sel(1))
    also have "\<dots> \<longleftrightarrow> sameLetter k c"
      using kw that(2) by (intro upper_same) auto
    finally show ?thesis .
  qed
  have "list_all2 (\<lambda>u k. \<forall>c \<in> set s. hd (toUpper_units c) = u \<longleftrightarrow> sameLetter k c) (units kw) kw"
    unfolding units_def list_all2_map1 by (simp add: list_all2_same one)
  from includes_map_ci [OF this subset_refl] show ?thesis by (simp add: toUpperCase_map [OF nosharp])
qed

lemma department_code_upper: "extractDepartment (JStr loc) = Inr (department_upper loc)"
proof (cases "loc = []")
  case True
  then show ?thesis
    by (simp add: extractDepartment_def department_upper_def departmentKeywords_def
        toUpperCase_def units_def)
next
  case False
  then show ?thesis
    by (simp add: extractDepartment_def department_upper_def departmentKeywords_def Let_def)
qed

lemma department_upper_spec:
  assumes "CHR 0xDF \<notin> set loc"
  shows "department_upper loc = department_spec loc"
proof -
  have "str_includes (toUpperCase loc) (units ''NYA'') \<longleftrightarrow> ci_substring ''NYA'' loc"
    "str_includes (toUpperCase loc) (units ''FORBES'') \<longleftrightarrow> ci_substring ''FORBES'' loc"
    "str_includes (toUpperCase loc) (units ''QC'') \<longleftrightarrow> ci_substring ''QC'' loc"
    "str_includes (toUpperCase loc) (units ''MICRO'') \<longleftrightarrow> ci_substring ''MICRO'' loc"
    by (rule includes_upper_ci [OF assms], simp)+
  then show ?thesis
    by (simp add: department_upper_def department_spec_def departmentKeywords_def)
qed

lemma identify_extract: "identifyDepartment v = extractDepartment v"
  by (simp add: identifyDepartment_def extractDepartment_def)

lemma department_upper_closed:
  "department_upper loc \<in> {''NYA'', ''FORBES'', ''QC'', ''MICROBIOLOGY'', ''general''}"
  by (simp add: department_upper_def departmentKeywords_def)

section \<open>Facts about date normalization\<close>

lemma normalize_trimmed:
  assumes "trim s = [d1, d2, m1, m2, m3, y1, y2]" "matchesDDMMMYY (trim s)"
    and "map_of monthMap [m1, m2, m3] = Some mm"
  shows "normalizeDate s = ''20'' @ [y1, y2] @ ''-'' @ mm @ ''-'' @ [d1, d2]"
  using assms by (simp add: normalizeDate_def rewriteDDMMMYY_def substring_def Let_def)

lemma normalize_unknown_month:
  assumes "trim s = [d1, d2, m1, m2, m3, y1, y2]" "matchesDDMMMYY (trim s)"
    and "map_of monthMap [m1, m2, m3] = None"
  shows "normalizeDate s = ''20'' @ [y1, y2] @ ''-undefined-'' @ [d1, d2]"
  using assms by (simp add: normalizeDate_def rewriteDDMMMYY_def substring_def Let_def)

lemma normalize_other: "\<not> matchesDDMMMYY (trim s) \<Longrightarrow> normalizeDate s = trim s"
  by (simp add: normalizeDate_def Let_def)

lemma normalize_months:
  "map (\<lambda>m. normalizeDate (''01'' @ m @ ''25''))
     [''JAN'', ''FEB'', ''MAR'', ''APR'', ''MAY'', ''JUN'', ''JUL'', ''AUG'', ''SEP'', ''OCT'', ''NOV'',
      ''DEC'']
   = [''2025-01-01'', ''2025-02-01'', ''2025-03-01'', ''2025-04-01'', ''2025-05-01'', ''2025-06-01'',
      ''2025-07-01'', ''2025-08-01'', ''2025-09-01'', ''2025-10-01'', ''2025-11-01'', ''2025-12-01'']"
  by code_simp

lemma parseDate_unparsable:
  assumes "trim s \<noteq> []" "P (normalizeDate s) = None"
  shows "parseDate P (Some s) st = (None, st\<lparr>warnings := warnings st + 1\<rparr>)"
proof -
  from assms(1) have "s \<noteq> []" by (auto simp: trim_def)
  with assms show ?thesis by (simp add: parseDate_def)
qed

lemma parseDate_blank: "trim s = [] \<Longrightarrow> parseDate P (Some s) st = (None, st)"
  by (simp add: parseDate_def)

lemma parseDate_parsed:
  "trim s \<noteq> [] \<Longrightarrow> P (normalizeDate s) = Some d \<Longrightarrow> parseDate P (Some s) st = (Some d, st)"
  by (auto simp: parseDate_def trim_def)

lemmas date_eval = normalizeDate_def rewriteDDMMMYY_def matchesDDMMMYY_def trim_def isWhitespace_def
  isDigit_def isUpperAZ_def upperLetters_def substring_def monthMap_def

lemma normalize_01OCT25: "normalizeDate ''01OCT25'' = ''2025-10-01''"
  by (simp add: date_eval)

lemma iso_eval: "isoDateOnly ''2025-10-01'' = Some ''2025-10-01''"
  by (simp add: isoDateOnly_def isDigit_def twoDigits_def daysInMonth_def)

lemma not_a_date_eval: "normalizeDate ''not-a-date'' = ''not-a-date''" "trim ''not-a-date'' \<noteq> []"
  "isoDateOnly ''not-a-date'' = None"
  by (simp_all add: date_eval isoDateOnly_def)

section \<open>Facts about the import loops\<close>

lemma encrypt_counters:
  "encryptSensitiveData toByte record st = Inr (r', st') \<Longrightarrow>
     processedRecords st' = processedRecords st \<and> errors st' = errors st
     \<and> totalRecords st' = totalRecords st \<and> warnings st' = warnings st"
  by (auto simp: encryptSensitiveData_def Let_def split: if_splits jsval.splits)

lemma secureRecord_counters:
  "secureRecord toByte clock batchId k record st = (res, st') \<Longrightarrow>
     processedRecords st' = processedRecords st \<and> errors st' = errors st
     \<and> totalRecords st' = totalRecords st \<and> warnings st' = warnings st"
  by (auto simp: secureRecord_def split: sum.splits prod.splits dest: encrypt_counters)

lemma processOne_counts:
  "processOne toByte clock batchId k record (out, st) = (out', st') \<Longrightarrow>
     processedRecords st' + errors st' = processedRecords st + errors st + 1
     \<and> length out' + processedRecords st = length out + processedRecords st'"
  by (auto simp: processOne_def split: sum.splits prod.splits dest: secureRecord_counters)

lemma processBatch_counts:
  "processBatch toByte clock batchId k records (out, st) = (out', st') \<Longrightarrow>
     processedRecords st' + errors st' = processedRecords st + errors st + length records
     \<and> length out' + processedRecords st = length out + processedRecords st'"
proof (induction records arbitrary: k out st)
  case Nil
  then show ?case by simp
next
  case (Cons r rs)
  obtain out1 st1 where one: "processOne toByte clock batchId k r (out, st) = (out1, st1)"
    by (cases "processOne toByte clock batchId k r (out, st)")
  with Cons.prems have rest: "processBatch toByte clock batchId (Suc k) rs (out1, st1) = (out', st')"
    by simp
  from processOne_counts [OF one] Cons.IH [OF rest] show ?case by simp
qed

lemma processBatch_append:
  "processBatch toByte clock batchId k (xs @ ys) acc =
     processBatch toByte clock batchId (k + length xs) ys (processBatch toByte clock batchId k xs acc)"
  by (induction xs arbitrary: k acc) simp_all

lemma processBatches_flat:
  "processBatches toByte clock batchId i records acc = processBatch toByte clock batchId i (drop i records) acc"
proof (induction toByte clock batchId i records acc rule: processBatches.induct)
  case (1 toByte clock batchId i records acc)
  show ?case
  proof (cases "i < length records")
    case False
    then show ?thesis by (simp add: processBatches.simps [of _ _ _ i])
  next
    case True
    let ?b = "slice records i (i + batchSize)"
    have "drop i records = take batchSize (drop i records) @ drop batchSize (drop i records)"
      by (simp only: append_take_drop_id)
    also have "drop batchSize (drop i records) = drop (i + batchSize) records"
      by (simp add: add.commute)
    finally have split: "drop i records = ?b @ drop (i + batchSize) records"
      by (simp add: slice_def)
    show ?thesis
    proof (cases "i + batchSize \<le> length records")
      case full: True
      then have len: "length ?b = batchSize" by (simp add: slice_def)
      show ?thesis
        using True 1 [OF True] split len
        by (simp add: processBatches.simps [of _ _ _ i] processBatch_append)
    next
      case short: False
      then have "drop (i + batchSize) records = []" by simp
      with True 1 [OF True] split show ?thesis
        by (simp add: processBatches.simps [of _ _ _ i])
    qed
  qed
qed

lemma processRecords_flat:
  "processRecords toByte clock batchId records st = processBatch toByte clock batchId 0 records ([], st)"
  by (simp add: processRecords_def processBatches_flat)

lemma encrypt_result_indep:
  "map_sum id fst (encryptSensitiveData toByte record st) = map_sum id fst (encryptSensitiveData toByte record st0)"
  by (simp add: encryptSensitiveData_def Let_def split: jsval.splits)

lemma secureRecord_indep:
  "fst (secureRecord toByte clock batchId k record st) = securedRow toByte clock batchId k record"
  using encrypt_result_indep [of toByte "record" st newImporter]
  by (auto simp: securedRow_def secureRecord_def split: sum.splits prod.splits)

lemma processOne_out:
  "fst (processOne toByte clock batchId k r (out, st)) =
     out @ (case securedRow toByte clock batchId k r of Inr x \<Rightarrow> [x] | Inl e \<Rightarrow> [])"
proof -
  obtain res st1 where sr: "secureRecord toByte clock batchId k r st = (res, st1)"
    by (cases "secureRecord toByte clock batchId k r st")
  then have "res = securedRow toByte clock batchId k r"
    using secureRecord_indep [of toByte clock batchId k r st] by simp
  with sr show ?thesis
    by (cases "securedRow toByte clock batchId k r") (simp_all add: processOne_def)
qed

lemma processOne_errors:
  "errors (snd (processOne toByte clock batchId k r (out, st))) =
     errors st + (if isl (securedRow toByte clock batchId k r) then 1 else 0)"
proof -
  obtain res st1 where sr: "secureRecord toByte clock batchId k r st = (res, st1)"
    by (cases "secureRecord toByte clock batchId k r st")
  then have res: "res = securedRow toByte clock batchId k r"
    using secureRecord_indep [of toByte clock batchId k r st] by simp
  from sr have "errors st1 = errors st"
    by (simp add: secureRecord_counters)
  with sr res show ?thesis
    by (cases "securedRow toByte clock batchId k r") (simp_all add: processOne_def)
qed

lemma processBatch_emitted:
  "fst (processBatch toByte clock batchId k records (out, st)) = out @ emitted toByte clock batchId k records"
proof (induction records arbitrary: k out st)
  case Nil
  show ?case by (simp add: emitted_def List.map_filter_simps)
next
  case (Cons r rs)
  obtain out1 st1 where one: "processOne toByte clock batchId k r (out, st) = (out1, st1)"
    by (cases "processOne toByte clock batchId k r (out, st)")
  have "out1 = out @ (case securedRow toByte clock batchId k r of Inr x \<Rightarrow> [x] | Inl e \<Rightarrow> [])"
    using processOne_out [of toByte clock batchId k r out st] one by simp
  then show ?case
    using Cons.IH [of "Suc k" out1 st1] one
    by (simp add: emitted_def List.map_filter_simps split: sum.splits)
qed

lemma processBatch_errors:
  "errors (snd (processBatch toByte clock batchId k records (out, st))) =
     errors st + failedRows toByte clock batchId k records"
proof (induction records arbitrary: k out st)
  case Nil
  show ?case by (simp add: failedRows_def)
next
  case (Cons r rs)
  obtain out1 st1 where one: "processOne toByte clock batchId k r (out, st) = (out1, st1)"
    by (cases "processOne toByte clock batchId k r (out, st)")
  have "errors st1 = errors st + (if isl (securedRow toByte clock batchId k r) then 1 else 0)"
    using processOne_errors [of toByte clock batchId k r out st] one by simp
  then show ?case
    using Cons.IH [of "Suc k" out1 st1] one
    by (simp add: failedRows_def)
qed

lemma batchStarts_step:
  assumes "i < n"
  shows "batchStarts i n = i # batchStarts (i + uploadBatchSize) n"
proof -
  have "(n - i + uploadBatchSize - 1) div uploadBatchSize
        = Suc ((n - (i + uploadBatchSize) + uploadBatchSize - 1) div uploadBatchSize)"
  proof (cases "n - i \<le> uploadBatchSize")
    case True
    with assms have "n - (i + uploadBatchSize) = 0"
      "(n - i + uploadBatchSize - 1) div uploadBatchSize = 1"
      by (simp_all add: uploadBatchSize_def)
    then show ?thesis by (simp add: uploadBatchSize_def)
  next
    case False
    then obtain m where m: "n - i = m + uploadBatchSize"
      by (metis add.commute le_add_diff_inverse nat_le_linear)
    then have "n - (i + uploadBatchSize) = m" by simp
    with m show ?thesis by (simp add: uploadBatchSize_def)
  qed
  then have "batchStarts i n = map (\<lambda>j. i + j * uploadBatchSize)
      [0..<Suc ((n - (i + uploadBatchSize) + uploadBatchSize - 1) div uploadBatchSize)]"
    by (simp only: batchStarts_def)
  also have "\<dots> = i # map (\<lambda>j. i + Suc j * uploadBatchSize)
      [0..<(n - (i + uploadBatchSize) + uploadBatchSize - 1) div uploadBatchSize]"
    by (simp only: map_upt_Suc) simp
  also have "\<dots> = i # batchStarts (i + uploadBatchSize) n"
    by (simp add: batchStarts_def add.assoc)
  finally show ?thesis .
qed

lemma batchStarts_done: "\<not> i < n \<Longrightarrow> batchStarts i n = []"
  by (simp add: batchStarts_def uploadBatchSize_def)

lemma slice_length: "length (slice xs i (i + m)) = min m (length xs - i)"
  by (simp add: slice_def)


lemma uploadBatches_sum:
  "uploadBatches apiOk i processed (u, st) =
     (u + sum_list (map (batchLength (length processed)) (filter apiOk (batchStarts i (length processed)))),
      st\<lparr>errors := errors st
         + sum_list (map (batchLength (length processed))
             (filter (\<lambda>i. \<not> apiOk i) (batchStarts i (length processed))))\<rparr>)"
proof (induction apiOk i processed "(u, st)" arbitrary: u st rule: uploadBatches.induct)
  case (1 apiOk i processed)
  show ?case
  proof (cases "i < length processed")
    case False
    then show ?thesis by (simp add: uploadBatches.simps [of _ i] batchStarts_done)
  next
    case True
    note step = batchStarts_step [OF True]
    show ?thesis
    proof (cases "apiOk i")
      case ok: True
      show ?thesis
        using True ok 1 [OF True, of "u + length (slice processed i (i + uploadBatchSize))" st]
        by (simp add: uploadBatches.simps [of _ i] step slice_length batchLength_def)
    next
      case bad: False
      show ?thesis
        using True bad 1 [OF True, of u
            "st\<lparr>errors := errors st + length (slice processed i (i + uploadBatchSize))\<rparr>"]
        by (simp add: uploadBatches.simps [of _ i] step slice_length batchLength_def)
    qed
  qed
qed

lemma emitted_append:
  "emitted toByte clock batchId k (xs @ ys) =
     emitted toByte clock batchId k xs @ emitted toByte clock batchId (k + length xs) ys"
  by (simp add: emitted_def enumerate_append_eq List.map_filter_def)

lemma failedRows_append:
  "failedRows toByte clock batchId k (xs @ ys) =
     failedRows toByte clock batchId k xs + failedRows toByte clock batchId (k + length xs) ys"
  by (simp add: failedRows_def enumerate_append_eq)

lemma processRecords_emitted:
  "fst (processRecords toByte clock batchId records st) = emitted toByte clock batchId 0 records"
  by (simp add: processRecords_flat processBatch_emitted)

lemma processRecords_errors:
  "errors (snd (processRecords toByte clock batchId records st)) =
     errors st + failedRows toByte clock batchId 0 records"
  by (simp add: processRecords_flat processBatch_errors)

lemma processRecords_counts:
  "processedRecords (snd (processRecords toByte clock batchId records st))
     + errors (snd (processRecords toByte clock batchId records st))
     = processedRecords st + errors st + length records
   \<and> length (fst (processRecords toByte clock batchId records st)) + processedRecords st
     = processedRecords (snd (processRecords toByte clock batchId records st))"
proof -
  obtain out' st' where r: "processBatch toByte clock batchId 0 records ([], st) = (out', st')"
    by (cases "processBatch toByte clock batchId 0 records ([], st)")
  from processBatch_counts [OF r] r show ?thesis
    by (simp add: processRecords_flat)
qed

lemma uploadToDatabase_sum:
  "uploadToDatabase apiOk processed st =
     (sum_list (map (batchLength (length processed))
        (filter apiOk (batchStarts 0 (length processed)))),
      st\<lparr>errors := errors st
         + sum_list (map (batchLength (length processed))
             (filter (\<lambda>i. \<not> apiOk i) (batchStarts 0 (length processed))))\<rparr>)"
  by (simp add: uploadToDatabase_def uploadBatches_sum)

lemma readCSVFile_length: "length (fst (readCSVFile P rows st)) = length rows"
  by (induction rows arbitrary: st) (simp_all add: split_def Let_def)

lemma processOne_total:
  "totalRecords (snd (processOne toByte clock batchId k r (out, st))) = totalRecords st"
proof -
  obtain res st1 where sr: "secureRecord toByte clock batchId k r st = (res, st1)"
    by (cases "secureRecord toByte clock batchId k r st")
  then have "totalRecords st1 = totalRecords st" by (simp add: secureRecord_counters)
  with sr show ?thesis by (cases res) (simp_all add: processOne_def)
qed

lemma processBatch_total:
  "totalRecords (snd (processBatch toByte clock batchId k records (out, st))) = totalRecords st"
proof (induction records arbitrary: k out st)
  case Nil
  show ?case by simp
next
  case (Cons r rs)
  obtain out1 st1 where one: "processOne toByte clock batchId k r (out, st) = (out1, st1)"
    by (cases "processOne toByte clock batchId k r (out, st)")
  with processOne_total [of toByte clock batchId k r out st] Cons.IH [of "Suc k" out1 st1]
  show ?case by simp
qed

lemma processRecords_total:
  "totalRecords (snd (processRecords toByte clock batchId records st)) = totalRecords st"
  by (simp add: processRecords_flat processBatch_total)

lemma importData_completed:
  "importData True True P toByte clock batchId apiOk (rows, None) st = (result, st') \<Longrightarrow>
     result = [(''success'', JBool True), (''totalRecords'', JNum (int (length rows))),
               (''uploadedRecords'',
                  JNum (int (fst (uploadToDatabase apiOk
                    (fst (processRecords toByte clock batchId (fst (readCSVFile P rows st))
                       ((snd (readCSVFile P rows st))\<lparr>totalRecords := length rows\<rparr>)))
                    (snd (processRecords toByte clock batchId (fst (readCSVFile P rows st))
                       ((snd (readCSVFile P rows st))\<lparr>totalRecords := length rows\<rparr>))))))),
               (''errors'', JNum (int (errors st')))]
     \<and> totalRecords st' = length rows"
  using readCSVFile_length [of P rows st]
  apply (simp add: importData_def split_def Let_def uploadToDatabase_sum)
  apply (auto simp: processRecords_total)
  done

lemma parseDate_counters:
  "processedRecords (snd (parseDate P c st)) = processedRecords st
   \<and> errors (snd (parseDate P c st)) = errors st"
  by (simp add: parseDate_def split: option.splits)

lemma mapRow_counters:
  "processedRecords (snd (mapRow P r st)) = processedRecords st
   \<and> errors (snd (mapRow P r st)) = errors st"
  by (simp add: mapRow_def split_def Let_def parseDate_counters)

lemma readCSVFile_counters:
  "processedRecords (snd (readCSVFile P rows st)) = processedRecords st
   \<and> errors (snd (readCSVFile P rows st)) = errors st"
  by (induction rows arbitrary: st) (simp_all add: split_def Let_def mapRow_counters)

section \<open>Facts about the exports\<close>

lemma sublist_avoiding:
  assumes "sublist w (a @ c # b)" "c \<notin> set w"
  shows "sublist w a \<or> sublist w b"
proof -
  from assms(1) obtain ps ss where eq: "a @ c # b = ps @ w @ ss" by (auto simp: sublist_def)
  then consider us where "a = ps @ us" "us @ c # b = w @ ss"
    | us where "a @ us = ps" "c # b = us @ w @ ss"
    by (auto simp: append_eq_append_conv2)
  then show ?thesis
  proof cases
    case 1
    from 1(2) consider vs where "us = w @ vs" | vs where "us @ vs = w" "c # b = vs @ ss" "vs \<noteq> []"
      by (auto simp: append_eq_append_conv2) (metis append.right_neutral)
    then show ?thesis
    proof cases
      case 1
      with \<open>a = ps @ us\<close> show ?thesis by (auto simp: sublist_def)
    next
      case 2
      from 2(2,3) obtain vs' where "vs = c # vs'" by (cases vs) simp_all
      with 2(1) have "w = us @ c # vs'" by simp
      then have "c \<in> set w" by simp
      with assms(2) show ?thesis by simp
    qed
  next
    case 2
    show ?thesis
    proof (cases us)
      case Nil
      with 2(2) assms(2) show ?thesis
        by (cases w) (auto simp: sublist_def)
    next
      case (Cons u us')
      with 2(2) have "b = us' @ w @ ss" by simp
      then show ?thesis by (auto simp: sublist_def)
    qed
  qed
qed

lemma replaceFirstUnderscore_cases:
  "(CHR ''_'' \<notin> set key \<and> replaceFirstUnderscore key = key)
   \<or> (\<exists>a b. key = a @ CHR ''_'' # b \<and> replaceFirstUnderscore key = a @ CHR '' '' # b)"
proof (cases "dropWhile (\<lambda>c. c \<noteq> CHR ''_'') key")
  case Nil
  then have "CHR ''_'' \<notin> set key" by (auto simp: dropWhile_eq_Nil_conv)
  then show ?thesis by (simp add: replaceFirstUnderscore_def Nil)
next
  case (Cons u rest)
  have u: "u = CHR ''_''"
    using hd_dropWhile [of "\<lambda>c. c \<noteq> CHR ''_''" key] by (simp add: Cons)
  have "takeWhile (\<lambda>c. c \<noteq> CHR ''_'') key @ dropWhile (\<lambda>c. c \<noteq> CHR ''_'') key = key"
    by (rule takeWhile_dropWhile_id)
  then have "key = takeWhile (\<lambda>c. c \<noteq> CHR ''_'') key @ CHR ''_'' # rest"
    by (simp add: Cons u)
  moreover have "replaceFirstUnderscore key = takeWhile (\<lambda>c. c \<noteq> CHR ''_'') key @ CHR '' '' # rest"
    by (simp add: replaceFirstUnderscore_def Cons)
  ultimately show ?thesis by blast
qed

lemma replaced_avoids:
  assumes "\<not> sublist w key" "CHR '' '' \<notin> set w"
  shows "\<not> sublist w (replaceFirstUnderscore key)"
proof
  assume sub: "sublist w (replaceFirstUnderscore key)"
  from replaceFirstUnderscore_cases [of key] show False
  proof (elim disjE conjE exE)
    assume "replaceFirstUnderscore key = key"
    with sub assms(1) show False by simp
  next
    fix a b assume key: "key = a @ CHR ''_'' # b"
      and rep: "replaceFirstUnderscore key = a @ CHR '' '' # b"
    from sub rep assms(2) have "sublist w a \<or> sublist w b"
      using sublist_avoiding [of w a "CHR '' ''" b] by simp
    then have "sublist w key"
    proof
      assume "sublist w a"
      then obtain ps ss where "a = ps @ w @ ss" by (auto simp: sublist_def)
      then have "key = ps @ w @ (ss @ CHR ''_'' # b)" by (simp add: key)
      then show ?thesis unfolding sublist_def by blast
    next
      assume "sublist w b"
      then obtain ps ss where "b = ps @ w @ ss" by (auto simp: sublist_def)
      then have "key = (a @ CHR ''_'' # ps) @ w @ ss" by (simp add: key)
      then show ?thesis unfolding sublist_def by blast
    qed
    with assms(1) show False by simp
  qed
qed

lemma replaced_not_audit_log:
  assumes "key \<noteq> ''audit_log''"
  shows "replaceFirstUnderscore key \<noteq> ''audit_log''"
proof
  assume eq: "replaceFirstUnderscore key = ''audit_log''"
  from replaceFirstUnderscore_cases [of key] show False
  proof (elim disjE conjE exE)
    assume "replaceFirstUnderscore key = key"
    with eq assms show False by simp
  next
    fix a b assume "replaceFirstUnderscore key = a @ CHR '' '' # b"
    with eq have "a @ CHR '' '' # b = ''audit_log''" by simp
    moreover have "CHR '' '' \<in> set (a @ CHR '' '' # b)" by simp
    ultimately have "CHR '' '' \<in> set ''audit_log''" by simp
    then show False by simp
  qed
qed

lemma obj_keys_set: "set (obj_keys (obj_set k v obj)) = insert k (set (obj_keys obj))"
  by (simp add: obj_keys_def obj_set_def dom_update)

lemma exportable_replaced:
  assumes "exportableName key"
  shows "exportableName (replaceFirstUnderscore key)"
proof -
  have a: "\<not> sublist ''encrypted'' key" and b: "\<not> sublist ''hash'' key"
    and c: "key \<noteq> ''audit_log''"
    using assms unfolding exportableName_def str_includes_sublist by blast+
  have "\<not> sublist ''encrypted'' (replaceFirstUnderscore key)"
    by (rule replaced_avoids [OF a]) simp
  moreover have "\<not> sublist ''hash'' (replaceFirstUnderscore key)"
    by (rule replaced_avoids [OF b]) simp
  moreover note replaced_not_audit_log [OF c]
  ultimately show ?thesis unfolding exportableName_def str_includes_sublist by blast
qed

lemma cleanStep_keys:
  assumes "\<forall>k \<in> set (obj_keys acc). exportableName k"
  shows "\<forall>k \<in> set (obj_keys (cleanStep r key acc)). exportableName k"
proof (cases "exportableName key")
  case True
  then have step: "cleanStep r key acc = obj_set (replaceFirstUnderscore key) (obj_get r key) acc"
    by (simp add: cleanStep_def exportableName_def)
  from True have "exportableName (replaceFirstUnderscore key)" by (rule exportable_replaced)
  with assms show ?thesis by (simp add: step obj_keys_set)
next
  case False
  then have "cleanStep r key acc = acc" by (auto simp: cleanStep_def exportableName_def)
  with assms show ?thesis by simp
qed

lemma cleanRecord_fold_keys:
  "\<forall>k \<in> set (obj_keys acc). exportableName k \<Longrightarrow>
   \<forall>k \<in> set (obj_keys (fold (cleanStep r) ks acc)). exportableName k"
proof (induction ks arbitrary: acc)
  case Nil
  then show ?case by simp
next
  case (Cons key ks)
  from cleanStep_keys [OF Cons.prems] have "\<forall>k \<in> set (obj_keys (cleanStep r key acc)). exportableName k" .
  from Cons.IH [OF this] show ?case by simp
qed

lemma cleanRecord_keys: "k \<in> set (obj_keys (cleanRecord r)) \<Longrightarrow> exportableName k"
proof -
  have "\<forall>k \<in> set (obj_keys ([] :: jsobj)). exportableName k" by (simp add: obj_keys_def)
  from cleanRecord_fold_keys [OF this, of r "obj_keys r"]
  show "k \<in> set (obj_keys (cleanRecord r)) \<Longrightarrow> exportableName k"
    unfolding cleanRecord_def by blast
qed

lemma excel_export_names:
  "r \<in> set (exportToExcel_cleanData data) \<Longrightarrow> key \<in> set (obj_keys r) \<Longrightarrow> exportableName key"
  by (auto simp: exportToExcel_cleanData_def dest: cleanRecord_keys)

lemma csvColumns_set: "set (csvColumns first) = set (obj_keys first) - set excludeFields"
  by (auto simp: csvColumns_def)

lemma str_includes_single: "str_includes s [c] \<longleftrightarrow> c \<in> set s"
  by (induction s) auto

lemma doubleQuotes_set: "set (doubleQuotes s) = set s"
  by (induction s) (auto simp: doubleQuotes_def)

lemma doubleQuotes_id: "dquote \<notin> set s \<Longrightarrow> doubleQuotes s = s"
  by (induction s) (auto simp: doubleQuotes_def)

lemma csvField_string:
  "csvField (JStr s) =
     (if CHR '','' \<in> set s \<or> newline \<in> set s \<or> dquote \<in> set s
      then dquote # doubleQuotes s @ [dquote] else s)"
proof -
  have inc: "str_includes (doubleQuotes s) [c] \<longleftrightarrow> c \<in> set s" for c
    by (simp only: str_includes_single doubleQuotes_set)
  have comma: "str_includes (doubleQuotes s) '','' \<longleftrightarrow> CHR '','' \<in> set s"
    using inc [of "CHR '',''"] by simp
  have field: "csvField (JStr s) =
     (if CHR '','' \<in> set s \<or> newline \<in> set s \<or> dquote \<in> set s
      then dquote # doubleQuotes s @ [dquote] else doubleQuotes s)"
  proof (cases "s = []")
    case True
    then show ?thesis by (simp add: csvField_def doubleQuotes_def)
  next
    case False
    then show ?thesis by (simp add: csvField_def Let_def inc comma)
  qed
  show ?thesis
  proof (cases "dquote \<in> set s")
    case True
    with field show ?thesis by simp
  next
    case False
    with field doubleQuotes_id [OF False] show ?thesis by simp
  qed
qed

lemma undouble_double: "undoubleQuotes (doubleQuotes s) = s"
proof (induction s)
  case Nil
  show ?case by (simp add: doubleQuotes_def)
next
  case (Cons c s)
  have step: "doubleQuotes (c # s) = (if c = dquote then [dquote, dquote] else [c]) @ doubleQuotes s"
    by (simp add: doubleQuotes_def)
  show ?case
  proof (cases "c = dquote")
    case True
    with Cons step show ?thesis by simp
  next
    case False
    with Cons step show ?thesis by (cases "doubleQuotes s") simp_all
  qed
qed

lemma csvDecode_csvField: "csvDecodeField (csvField (JStr s)) = s"
proof (cases "CHR '','' \<in> set s \<or> newline \<in> set s \<or> dquote \<in> set s")
  case True
  then show ?thesis by (simp add: csvField_string csvDecodeField_def undouble_double)
next
  case False
  then have "csvField (JStr s) = s" "dquote \<notin> set s" by (simp_all add: csvField_string)
  then show ?thesis by (cases s) (auto simp: csvDecodeField_def)
qed

lemma digit_mem: "k < 10 \<Longrightarrow> ''0123456789'' ! k \<in> set ''0123456789''"
  by (rule nth_mem) simp

lemma show_nat_digits: "set (show_nat n) \<subseteq> set ''0123456789''"
proof (induction n rule: show_nat.induct)
  case (1 n)
  show ?case
  proof (cases "n < 10")
    case True
    then have "show_nat n = [''0123456789'' ! n]" by (subst show_nat.simps) simp
    with digit_mem [OF True] show ?thesis by simp
  next
    case False
    then have eq: "show_nat n = show_nat (n div 10) @ [''0123456789'' ! (n mod 10)]"
      by (subst show_nat.simps) simp
    have "n mod 10 < 10" by simp
    from digit_mem [OF this] 1 [OF False] show ?thesis
      unfolding eq by simp
  qed
qed

lemma show_int_chars: "set (show_int i) \<subseteq> set ''-0123456789''"
proof -
  have sub: "set ''0123456789'' \<subseteq> set ''-0123456789''" by (simp add: subset_insertI2)
  show ?thesis
  proof (cases "i < 0")
    case True
    then have eq: "show_int i = CHR ''-'' # show_nat (nat (- i))" by (simp add: show_int_def)
    have "CHR ''-'' \<in> set ''-0123456789''" by simp
    moreover have "set (show_nat (nat (- i))) \<subseteq> set ''-0123456789''"
      by (rule subset_trans [OF show_nat_digits sub])
    ultimately show ?thesis unfolding eq by (simp only: set_simps insert_subset)
  next
    case False
    then have eq: "show_int i = show_nat (nat i)" by (simp add: show_int_def)
    show ?thesis unfolding eq by (rule subset_trans [OF show_nat_digits sub])
  qed
qed

lemma csvField_number:
  "csvField (JNum n) = (if n = 0 then [] else show_int n)"
  by (simp add: csvField_def doubleQuotes_def)

lemma csv_example:
  \<open>exportToCSV [[(''a'', JStr ''x,y''), (''b'', JStr ''z"w'')]]
     = Inr (''a,b'' @ [newline] @ ''"x,y","z""w"'' @ [newline])\<close>
  by (simp add: exportToCSV_def csvColumns_def excludeFields_def obj_keys_def csvLine_def
      obj_get_def csvField_string doubleQuotes_def dquote_def newline_def)

lemma csvField_number_plain:
  "CHR '','' \<notin> set (csvField (JNum n)) \<and> newline \<notin> set (csvField (JNum n))
   \<and> dquote \<notin> set (csvField (JNum n))"
proof -
  have "set (csvField (JNum n)) \<subseteq> set ''-0123456789''"
    using show_int_chars [of n] by (simp add: csvField_number)
  moreover have "CHR '','' \<notin> set ''-0123456789''" "newline \<notin> set ''-0123456789''"
    "dquote \<notin> set ''-0123456789''"
    by (simp_all add: newline_def dquote_def)
  ultimately show ?thesis by blast
qed

section \<open>Facts about the contact fields\<close>




































section \<open>Claims\<close>




text \<open>
  C2, as the code has it. The classifier answers \<open>internal\<close> whenever the serialized
  record contains \<open>@\<close> or, ignoring case, \<open>email\<close>; only otherwise does \<open>confidential\<close> or
  \<open>sensitive\<close> (ignoring case) give \<open>confidential\<close>; otherwise the answer is \<open>internal\<close>.
  The answer is one of the two labels.
\<close>

theorem classifyRecord_order:
  "classifyRecord r =
     (if ci_substring ''@'' (JSON_stringify r) \<or> ci_substring ''email'' (JSON_stringify r)
      then ''internal''
      else if ci_substring ''confidential'' (JSON_stringify r)
            \<or> ci_substring ''sensitive'' (JSON_stringify r)
        then ''confidential''
      else ''internal'')
   \<and> classifyRecord r \<in> {''internal'', ''confidential''}"
proof -
  have "classifyRecord r \<in> {''internal'', ''confidential''}"
    by (simp add: classifyRecord_def Let_def)
  with classifyRecord_spec [of r] show ?thesis by (rule conjI)
qed

text \<open>
  C2 as stated fails: the record read from the example row contains both \<open>confidential\<close>
  (ignoring case) and \<open>@\<close>, and is classified \<open>internal\<close>.
\<close>

theorem classifyRecord_counterexample:
  "str_includes (toLowerCase (JSON_stringify (fst (mapRow isoDateOnly demoRow newImporter))))
     ''confidential''
   \<and> str_includes (toLowerCase (JSON_stringify (fst (mapRow isoDateOnly demoRow newImporter)))) ''@''
   \<and> classifyRecord (fst (mapRow isoDateOnly demoRow newImporter)) = ''internal''
   \<and> classifyRecord (fst (mapRow isoDateOnly demoRow newImporter)) \<noteq> ''confidential''"
  by code_simp

text \<open>
  C4, as the code has it. A completed run returns the object
  \<open>{success: true, totalRecords, uploadedRecords, errors}\<close>, with \<open>totalRecords\<close> the number
  of rows and \<open>errors\<close> the error counter; the five statistics stay in the importer's
  counters.
\<close>

theorem importData_result:
  "(let (result, st') = importData True True P toByte clock batchId apiOk (rows, None) st in
      obj_keys result = [''success'', ''totalRecords'', ''uploadedRecords'', ''errors'']
      \<and> obj_get result ''success'' = JBool True
      \<and> obj_get result ''totalRecords'' = JNum (int (length rows))
      \<and> (\<exists>n. obj_get result ''uploadedRecords'' = JNum (int n))
      \<and> obj_get result ''errors'' = JNum (int (errors st'))
      \<and> totalRecords st' = length rows)"
proof -
  obtain result st' where
    run: "importData True True P toByte clock batchId apiOk (rows, None) st = (result, st')"
    by (cases "importData True True P toByte clock batchId apiOk (rows, None) st")
  from importData_completed [OF run] run show ?thesis
    by (simp add: obj_keys_def obj_get_def)
qed

text \<open>
  C4 as stated fails: the object returned for the one-row file has the key \<open>success\<close>
  and lacks \<open>processedRecords\<close>, \<open>encryptedFields\<close> and \<open>warnings\<close>.
\<close>

theorem importData_result_counterexample:
  "obj_keys (fst (importData True True isoDateOnly noByte (\<lambda>k. ''2025-10-01T00:00:00.000Z'') ''import_1''
       (\<lambda>i. True) ([demoRow], None) newImporter))
     = [''success'', ''totalRecords'', ''uploadedRecords'', ''errors'']
   \<and> ''processedRecords'' \<notin> set (obj_keys (fst (importData True True isoDateOnly noByte
       (\<lambda>k. ''2025-10-01T00:00:00.000Z'') ''import_1'' (\<lambda>i. True) ([demoRow], None) newImporter)))
   \<and> ''encryptedFields'' \<notin> set (obj_keys (fst (importData True True isoDateOnly noByte
       (\<lambda>k. ''2025-10-01T00:00:00.000Z'') ''import_1'' (\<lambda>i. True) ([demoRow], None) newImporter)))
   \<and> ''warnings'' \<notin> set (obj_keys (fst (importData True True isoDateOnly noByte
       (\<lambda>k. ''2025-10-01T00:00:00.000Z'') ''import_1'' (\<lambda>i. True) ([demoRow], None) newImporter)))"
proof -
  have run: "fst (importData True True isoDateOnly noByte (\<lambda>k. ''2025-10-01T00:00:00.000Z'') ''import_1''
       (\<lambda>i. True) ([demoRow], None) newImporter)
     = [(''success'', JBool True), (''totalRecords'', JNum 1), (''uploadedRecords'', JNum 1),
        (''errors'', JNum 0)]"
    by code_simp
  show ?thesis by (simp add: run obj_keys_def)
qed

text \<open>
  C5, as the code has it. The string is trimmed; when it then has the form DDMMMYY, with a
  month of the table, it is rewritten to \<open>20YY-MM-DD\<close> (\<open>01OCT25\<close> to \<open>2025-10-01\<close>, and
  so for each of the twelve months), with three capitals that are no month the word
  \<open>undefined\<close> stands for the month, and otherwise the string is left as trimmed; the text so
  obtained is given to the platform. A
  string that is not blank after trimming gives the date the platform reads, with the
  counters unchanged, or, when the platform cannot read it, \<open>null\<close> and exactly one more
  warning. A string that is blank after trimming gives \<open>null\<close> and no warning.
\<close>

theorem parseDate_normalization:
  "normalizeDate ''01OCT25'' = ''2025-10-01''
   \<and> (P ''2025-10-01'' = Some ''2025-10-01'' \<longrightarrow>
        parseDate P (Some ''01OCT25'') st = (Some ''2025-10-01'', st))
   \<and> map (\<lambda>m. normalizeDate (''01'' @ m @ ''25''))
        [''JAN'', ''FEB'', ''MAR'', ''APR'', ''MAY'', ''JUN'', ''JUL'', ''AUG'', ''SEP'', ''OCT'',
         ''NOV'', ''DEC'']
      = [''2025-01-01'', ''2025-02-01'', ''2025-03-01'', ''2025-04-01'', ''2025-05-01'',
         ''2025-06-01'', ''2025-07-01'', ''2025-08-01'', ''2025-09-01'', ''2025-10-01'',
         ''2025-11-01'', ''2025-12-01'']
   \<and> (trim s = [d1, d2, m1, m2, m3, y1, y2] \<and> matchesDDMMMYY (trim s)
        \<and> map_of monthMap [m1, m2, m3] = Some mm \<longrightarrow>
        normalizeDate s = ''20'' @ [y1, y2] @ ''-'' @ mm @ ''-'' @ [d1, d2])
   \<and> (trim s = [d1, d2, m1, m2, m3, y1, y2] \<and> matchesDDMMMYY (trim s)
        \<and> map_of monthMap [m1, m2, m3] = None \<longrightarrow>
        normalizeDate s = ''20'' @ [y1, y2] @ ''-undefined-'' @ [d1, d2])
   \<and> (\<not> matchesDDMMMYY (trim s) \<longrightarrow> normalizeDate s = trim s)
   \<and> (trim s \<noteq> [] \<and> P (normalizeDate s) = Some d \<longrightarrow> parseDate P (Some s) st = (Some d, st))
   \<and> (trim s \<noteq> [] \<and> P (normalizeDate s) = None \<longrightarrow>
        parseDate P (Some s) st = (None, st\<lparr>warnings := warnings st + 1\<rparr>))
   \<and> (trim s = [] \<longrightarrow> parseDate P (Some s) st = (None, st))"
proof -
  have "trim ''01OCT25'' \<noteq> []" by (simp add: trim_def isWhitespace_def)
  then have "P ''2025-10-01'' = Some ''2025-10-01'' \<longrightarrow>
        parseDate P (Some ''01OCT25'') st = (Some ''2025-10-01'', st)"
    using parseDate_parsed [of "''01OCT25''" P "''2025-10-01''" st]
    by (simp add: normalize_01OCT25)
  then show ?thesis
    using normalize_01OCT25 normalize_months normalize_trimmed [of s d1 d2 m1 m2 m3 y1 y2 mm]
      normalize_unknown_month [of s d1 d2 m1 m2 m3 y1 y2] normalize_other [of s]
      parseDate_parsed [of s P d st] parseDate_unparsable [of s P st] parseDate_blank [of s P st]
    by blast
qed

text \<open>
  The premises hold with the example platform: for \<open>01OCT25\<close>, also with spaces around
  it, for \<open>01XYZ25\<close>, for \<open>not-a-date\<close> (one warning) and for a no-break space followed by a space (no
  warning).
\<close>

theorem parseDate_normalization_witness:
  "isoDateOnly ''2025-10-01'' = Some ''2025-10-01''
   \<and> parseDate isoDateOnly (Some ''01OCT25'') newImporter = (Some ''2025-10-01'', newImporter)
   \<and> trim '' 01OCT25 '' = ''01OCT25'' \<and> matchesDDMMMYY (trim '' 01OCT25 '')
   \<and> map_of monthMap ''OCT'' = Some ''10''
   \<and> normalizeDate '' 01OCT25 '' = ''2025-10-01''
   \<and> trim '' 01OCT25 '' \<noteq> [] \<and> isoDateOnly (normalizeDate '' 01OCT25 '') = Some ''2025-10-01''
   \<and> parseDate isoDateOnly (Some '' 01OCT25 '') newImporter = (Some ''2025-10-01'', newImporter)
   \<and> trim ''01XYZ25'' = ''01XYZ25'' \<and> matchesDDMMMYY (trim ''01XYZ25'')
   \<and> map_of monthMap ''XYZ'' = None
   \<and> normalizeDate ''01XYZ25'' = ''2025-undefined-01''
   \<and> \<not> matchesDDMMMYY (trim ''not-a-date'') \<and> normalizeDate ''not-a-date'' = trim ''not-a-date''
   \<and> trim ''not-a-date'' \<noteq> [] \<and> isoDateOnly (normalizeDate ''not-a-date'') = None
   \<and> parseDate isoDateOnly (Some ''not-a-date'') newImporter
       = (None, newImporter\<lparr>warnings := warnings newImporter + 1\<rparr>)
   \<and> warnings (snd (parseDate isoDateOnly (Some ''not-a-date'') newImporter)) = 1
   \<and> trim [CHR 0xA0, CHR '' ''] = []
   \<and> parseDate isoDateOnly (Some [CHR 0xA0, CHR '' '']) newImporter = (None, newImporter)"
proof -
  have h1: "isoDateOnly ''2025-10-01'' = Some ''2025-10-01''" by (rule iso_eval)
  have h2: "trim '' 01OCT25 '' = ''01OCT25''" "matchesDDMMMYY (trim '' 01OCT25 '')"
    "map_of monthMap ''OCT'' = Some ''10''" "trim '' 01OCT25 '' \<noteq> []"
    by code_simp+
  have h3: "\<not> matchesDDMMMYY (trim ''not-a-date'')" "trim ''not-a-date'' \<noteq> []"
    "isoDateOnly (normalizeDate ''not-a-date'') = None"
    by code_simp+
  have h4: "trim [CHR 0xA0, CHR '' ''] = []" by code_simp
  have h5: "trim ''01XYZ25'' = ''01XYZ25''" "matchesDDMMMYY (trim ''01XYZ25'')"
    "map_of monthMap ''XYZ'' = None"
    by code_simp+
  note e = parseDate_normalization
    [where P = isoDateOnly and st = newImporter and s = "''01XYZ25''" and ?d1.0 = "CHR ''0''"
      and ?d2.0 = "CHR ''1''" and ?m1.0 = "CHR ''X''" and ?m2.0 = "CHR ''Y''" and ?m3.0 = "CHR ''Z''"
      and ?y1.0 = "CHR ''2''" and ?y2.0 = "CHR ''5''"]
  from e h5 have c9: "normalizeDate ''01XYZ25'' = ''2025-undefined-01''" by simp
  note a = parseDate_normalization
    [where P = isoDateOnly and st = newImporter and s = "'' 01OCT25 ''" and ?d1.0 = "CHR ''0''"
      and ?d2.0 = "CHR ''1''" and ?m1.0 = "CHR ''O''" and ?m2.0 = "CHR ''C''" and ?m3.0 = "CHR ''T''"
      and ?y1.0 = "CHR ''2''" and ?y2.0 = "CHR ''5''" and mm = "''10''" and d = "''2025-10-01''"]
  note b = parseDate_normalization
    [where P = isoDateOnly and st = newImporter and s = "''not-a-date''"]
  note c = parseDate_normalization
    [where P = isoDateOnly and st = newImporter and s = "[CHR 0xA0, CHR '' '']"]
  from a h1 have c1: "parseDate isoDateOnly (Some ''01OCT25'') newImporter = (Some ''2025-10-01'', newImporter)"
    by blast
  from a h2 have c2: "normalizeDate '' 01OCT25 '' = ''2025-10-01''" by simp
  with h1 have c3: "isoDateOnly (normalizeDate '' 01OCT25 '') = Some ''2025-10-01''" by simp
  from a h2(4) c3 have c4: "parseDate isoDateOnly (Some '' 01OCT25 '') newImporter
       = (Some ''2025-10-01'', newImporter)" by blast
  from b h3(1) have c5: "normalizeDate ''not-a-date'' = trim ''not-a-date''" by blast
  from b h3 have c6: "parseDate isoDateOnly (Some ''not-a-date'') newImporter
       = (None, newImporter\<lparr>warnings := warnings newImporter + 1\<rparr>)" by blast
  then have c7: "warnings (snd (parseDate isoDateOnly (Some ''not-a-date'') newImporter)) = 1"
    by (simp add: newImporter_def)
  from c h4 have c8: "parseDate isoDateOnly (Some [CHR 0xA0, CHR '' '']) newImporter = (None, newImporter)"
    by blast
  from h1 c1 h2 c2 c3 c4 h5 c9 h3 c5 c6 c7 h4 c8 show ?thesis by blast
qed

text \<open>
  C5 as stated fails on the empty string: it is not a date, and \<open>parseDate\<close> returns
  \<open>null\<close> for it without counting a warning.
\<close>

theorem parseDate_blank_counterexample:
  "isoDateOnly '''' = None
   \<and> parseDate isoDateOnly (Some '''') newImporter = (None, newImporter)
   \<and> warnings (snd (parseDate isoDateOnly (Some '''') newImporter)) \<noteq> warnings newImporter + 1"
  by (simp add: parseDate_def isoDateOnly_def)

text \<open>
  C6. The CSV export does not do what the claim says. For a record with the columns
  \<open>name\<close> and \<open>email_hash\<close>, the second of which contains \<open>hash\<close>, the CSV export writes
  the column \<open>email_hash\<close> and its value, while the Excel export of the same record leaves
  the column out: the CSV export tests the names against a fixed list of four, where the
  Excel export tests for the parts \<open>encrypted\<close> and \<open>hash\<close>.
\<close>

theorem exportToCSV_exports_hash_column:
  "exportToCSV [[(''name'', JStr ''x''), (''email_hash'', JStr ''abc'')]]
     = Inr (''name,email_hash'' @ [newline] @ ''x,abc'' @ [newline])
   \<and> str_includes ''email_hash'' ''hash''
   \<and> ''email_hash'' \<in> set (csvColumns [(''name'', JStr ''x''), (''email_hash'', JStr ''abc'')])
   \<and> exportToExcel_cleanData [[(''name'', JStr ''x''), (''email_hash'', JStr ''abc'')]]
     = [[(''name'', JStr ''x'')]]"
  by code_simp

text \<open>
  C7, as the code has it. For every location string, both department classifiers compute
  the first entry of the ordered table NYA, FORBES, QC, MICRO (to MICROBIOLOGY) whose
  keyword occurs in the location written in upper case by \<open>toUpperCase\<close>, and \<open>general\<close>
  when none does; the result is always one of the five labels. For a location without
  the sharp s, which \<open>toUpperCase\<close> writes as SS, this is the first entry whose keyword
  occurs in the location ignoring case. "NYA Building 4" gives NYA and "Annex" gives
  general.
\<close>

theorem department_classification:
  "extractDepartment (JStr loc) = Inr (department_upper loc)
   \<and> identifyDepartment (JStr loc) = Inr (department_upper loc)
   \<and> department_upper loc \<in> {''NYA'', ''FORBES'', ''QC'', ''MICROBIOLOGY'', ''general''}
   \<and> (CHR 0xDF \<notin> set loc \<longrightarrow> department_upper loc = department_spec loc)
   \<and> extractDepartment (JStr ''NYA Building 4'') = Inr ''NYA''
   \<and> extractDepartment (JStr ''Annex'') = Inr ''general''"
proof -
  have ex: "extractDepartment (JStr ''NYA Building 4'') = Inr ''NYA''"
    "extractDepartment (JStr ''Annex'') = Inr ''general''"
    by code_simp+
  show ?thesis
    using ex department_code_upper [of loc] department_upper_closed [of loc]
      department_upper_spec [of loc]
    by (simp add: identify_extract)
qed

text \<open>The premise holds for a location in small letters, which is classified ignoring case.\<close>

theorem department_classification_witness:
  "CHR 0xDF \<notin> set ''nya building 4''
   \<and> department_upper ''nya building 4'' = department_spec ''nya building 4''
   \<and> department_spec ''nya building 4'' = ''NYA''
   \<and> extractDepartment (JStr ''nya building 4'') = Inr ''NYA''"
proof -
  have h: "CHR 0xDF \<notin> set ''nya building 4''" by simp
  have s: "department_spec ''nya building 4'' = ''NYA''" by code_simp
  note all = department_classification [of "''nya building 4''"]
  from all h have e: "department_upper ''nya building 4'' = department_spec ''nya building 4''"
    by blast
  from all e s have "extractDepartment (JStr ''nya building 4'') = Inr ''NYA''" by simp
  with h e s show ?thesis by simp
qed

text \<open>
  C7 as stated fails: in \<open>forbe\<close> followed by a sharp s no keyword occurs ignoring case,
  so that the specification's reading gives \<open>general\<close>, and both classifiers answer FORBES.
\<close>

theorem department_sharp_s_counterexample:
  "extractDepartment (JStr (''forbe'' @ [CHR 0xDF])) = Inr ''FORBES''
   \<and> identifyDepartment (JStr (''forbe'' @ [CHR 0xDF])) = Inr ''FORBES''
   \<and> \<not> ci_substring ''FORBES'' (''forbe'' @ [CHR 0xDF])
   \<and> department_spec (''forbe'' @ [CHR 0xDF]) = ''general''"
  by code_simp

text \<open>
  C8. A record on which the body of the \<open>try\<close> in \<open>processRecords\<close> raises adds one to
  the error counter and nothing else happens to the run: the objects emitted for the
  records before it stay in the result, and the records after it are processed as they
  would be otherwise. In general the result is the objects of all records that do not
  raise, in input order, and the counter grows by the number of records that raise.
  In the upload, a batch whose call fails adds its length to the error counter and every
  other batch is still uploaded and counted.
\<close>

theorem import_continues_after_failures:
  "(isl (securedRow toByte clock batchId (length pre) bad) \<longrightarrow>
      fst (processRecords toByte clock batchId (pre @ bad # post) st)
        = fst (processRecords toByte clock batchId pre st) @ emitted toByte clock batchId (Suc (length pre)) post
    \<and> errors (snd (processRecords toByte clock batchId (pre @ bad # post) st))
        = errors (snd (processRecords toByte clock batchId pre st)) + 1
          + failedRows toByte clock batchId (Suc (length pre)) post)
   \<and> fst (processRecords toByte clock batchId records st) = emitted toByte clock batchId 0 records
   \<and> errors (snd (processRecords toByte clock batchId records st))
        = errors st + failedRows toByte clock batchId 0 records
   \<and> uploadToDatabase apiOk processed st =
        (sum_list (map (batchLength (length processed))
           (filter apiOk (batchStarts 0 (length processed)))),
         st\<lparr>errors := errors st
            + sum_list (map (batchLength (length processed))
                (filter (\<lambda>i. \<not> apiOk i) (batchStarts 0 (length processed))))\<rparr>)"
proof -
  have one: "emitted toByte clock batchId (length pre) [bad] = []"
    "failedRows toByte clock batchId (length pre) [bad] = 1"
    if "isl (securedRow toByte clock batchId (length pre) bad)"
    using that by (cases "securedRow toByte clock batchId (length pre) bad";
        simp add: emitted_def failedRows_def List.map_filter_simps enumerate_simps)+
  have "pre @ bad # post = pre @ [bad] @ post" by simp
  then have split:
    "emitted toByte clock batchId 0 (pre @ bad # post)
       = emitted toByte clock batchId 0 pre @ emitted toByte clock batchId (length pre) [bad]
         @ emitted toByte clock batchId (Suc (length pre)) post"
    "failedRows toByte clock batchId 0 (pre @ bad # post)
       = failedRows toByte clock batchId 0 pre + failedRows toByte clock batchId (length pre) [bad]
         + failedRows toByte clock batchId (Suc (length pre)) post"
    by (simp_all only: emitted_append failedRows_append) simp_all
  show ?thesis
    using one split
    by (simp add: processRecords_emitted processRecords_errors uploadToDatabase_sum)
qed

text \<open>
  The premise holds for a record whose location is the boolean \<open>true\<close>, between two
  empty records.
\<close>

theorem import_continues_after_failures_witness:
  "isl (securedRow noByte (\<lambda>k. ''t'') ''import_1'' (length ([[]] :: jsobj list)) [(''location'', JBool True)])
   \<and> fst (processRecords noByte (\<lambda>k. ''t'') ''import_1'' ([[]] @ [(''location'', JBool True)] # [[]]) newImporter)
        = fst (processRecords noByte (\<lambda>k. ''t'') ''import_1'' [[]] newImporter)
          @ emitted noByte (\<lambda>k. ''t'') ''import_1'' (Suc (length ([[]] :: jsobj list))) [[]]
   \<and> errors (snd (processRecords noByte (\<lambda>k. ''t'') ''import_1'' ([[]] @ [(''location'', JBool True)] # [[]]) newImporter))
        = errors (snd (processRecords noByte (\<lambda>k. ''t'') ''import_1'' [[]] newImporter)) + 1
          + failedRows noByte (\<lambda>k. ''t'') ''import_1'' (Suc (length ([[]] :: jsobj list))) [[]]"
proof -
  have h: "isl (securedRow noByte (\<lambda>k. ''t'') ''import_1'' (length ([[]] :: jsobj list)) [(''location'', JBool True)])"
    by (simp add: securedRow_def secureRecord_def encryptSensitiveData_def obj_get_def
        extractDepartment_def)
  note run = import_continues_after_failures
    [of noByte "\<lambda>k. ''t''" "''import_1''" "[[]]" "[(''location'', JBool True)]" "[[]]" newImporter,
      THEN conjunct1, THEN mp, OF h]
  from h run show ?thesis by (rule conjI)
qed

text \<open>
  C9. The CSV export does not do what the claim says for every field. A cell that holds
  an array is written as the text of the array, whose commas separate the elements, without
  quotes; and a column name is written in the header as it is, also when it contains a
  comma. For the record list \<open>[{"a":"x,y","b":"z\"w"}]\<close> of the claim, whose cells are
  strings, the export is the header \<open>a,b\<close> and the line \<open>"x,y","z""w"\<close>.
\<close>

theorem exportToCSV_unquoted_fields:
  \<open>exportToCSV [[(''id'', JNum 7), (''tags'', JArr [JStr ''a'', JStr ''b''])]]
     = Inr (''id,tags'' @ [newline] @ ''7,a,b'' @ [newline])
   \<and> csvField (JArr [JStr ''a'', JStr ''b'']) = ''a,b''
   \<and> exportToCSV [[(''k,l'', JStr ''v'')]] = Inr (''k,l'' @ [newline] @ ''v'' @ [newline])
   \<and> exportToCSV [[(''a'', JStr ''x,y''), (''b'', JStr ''z"w'')]]
       = Inr (''a,b'' @ [newline] @ ''"x,y","z""w"'' @ [newline])\<close>
  by code_simp

text \<open>
  C10. After \<open>processRecords\<close>, the two counters \<open>processedRecords\<close> and \<open>errors\<close> have
  together grown by the number of input records, and the returned array has as many
  elements as \<open>processedRecords\<close> has grown by; on an importer whose two counters are
  zero, as the constructor leaves them, \<open>processedRecords + errors\<close> is the number of input
  records and the array has \<open>processedRecords\<close> elements; so it is in a run of a new
  importer over the rows of a file.
\<close>

theorem processed_plus_errors:
  "processedRecords (snd (processRecords toByte clock batchId records st))
     + errors (snd (processRecords toByte clock batchId records st))
     = processedRecords st + errors st + length records
   \<and> length (fst (processRecords toByte clock batchId records st)) + processedRecords st
     = processedRecords (snd (processRecords toByte clock batchId records st))
   \<and> (let run = processRecords toByte clock batchId records (st\<lparr>processedRecords := 0, errors := 0\<rparr>)
      in processedRecords (snd run) + errors (snd run) = length records
         \<and> length (fst run) = processedRecords (snd run))
   \<and> (let (records, st1) = readCSVFile P rows newImporter;
           run = processRecords toByte clock batchId records (st1\<lparr>totalRecords := length records\<rparr>)
      in processedRecords (snd run) + errors (snd run) = length rows
         \<and> length (fst run) = processedRecords (snd run))"
proof -
  let ?records = "fst (readCSVFile P rows newImporter)"
  let ?st1 = "(snd (readCSVFile P rows newImporter))\<lparr>totalRecords := length ?records\<rparr>"
  have zero: "processedRecords ?st1 = 0" "errors ?st1 = 0"
    using readCSVFile_counters [of P rows newImporter] by (simp_all add: newImporter_def)
  have len: "length ?records = length rows" by (rule readCSVFile_length)
  show ?thesis
    using processRecords_counts [of toByte clock batchId records st]
      processRecords_counts [of toByte clock batchId records "st\<lparr>processedRecords := 0, errors := 0\<rparr>"]
      processRecords_counts [of toByte clock batchId ?records ?st1] zero len
    by (simp add: Let_def split_def)
qed

end
